theory Spec2Isabelle
  imports Main
begin

section \<open>Python values used by the file-operations protocol\<close>

text \<open>
  The protocol of \<^verbatim>\<open>protocol.py\<close> exchanges JSON text frames that end in the marker
  \<^verbatim>\<open><END>\<close>, optionally followed by raw bytes. Python \<^verbatim>\<open>str\<close> values are modelled as
  \<^typ>\<open>string\<close>: one \<^typ>\<open>char\<close> per code point, which covers the code points
  U+0000 to U+00FF. Python \<^verbatim>\<open>bytes\<close> values are lists of \<^typ>\<open>char\<close> as well, one per byte.
\<close>

type_synonym bytes = "char list"

subsection \<open>String operations of the source\<close>

text \<open>\<^verbatim>\<open>s.startswith(p)\<close>\<close>

fun startswith :: "string \<Rightarrow> string \<Rightarrow> bool" where
  "startswith s [] = True"
| "startswith [] (p # ps) = False"
| "startswith (c # cs) (p # ps) = (c = p \<and> startswith cs ps)"

text \<open>\<^verbatim>\<open>sub in s\<close> on strings\<close>

fun str_contains :: "string \<Rightarrow> string \<Rightarrow> bool" where
  "str_contains sub [] = (sub = [])"
| "str_contains sub (c # cs) = (startswith (c # cs) sub \<or> str_contains sub cs)"

text \<open>
  \<^verbatim>\<open>s.replace(old, new)\<close>: every occurrence of \<^verbatim>\<open>old\<close>, found from the left and not
  overlapping, is replaced. For an empty \<^verbatim>\<open>old\<close> Python puts \<^verbatim>\<open>new\<close> before every
  character and at the end.
\<close>

function str_replace :: "string \<Rightarrow> string \<Rightarrow> string \<Rightarrow> string" where
  "str_replace old new s =
     (if old = [] then new @ concat (map (\<lambda>c. c # new) s)
      else (case s of
              [] \<Rightarrow> []
            | c # cs \<Rightarrow>
                if startswith (c # cs) old
                then new @ str_replace old new (drop (length old) (c # cs))
                else c # str_replace old new cs))"
  by pat_completeness auto
termination
  by (relation "measure (\<lambda>(old, new, s). length s)") auto

declare str_replace.simps [simp del]

text \<open>
  \<^verbatim>\<open>s.split(sep, 1)\<close> for a non-empty separator: the list of one string when the
  separator does not occur, else the text before its first occurrence and the text after.
\<close>

fun str_split1 :: "string \<Rightarrow> string \<Rightarrow> string list" where
  "str_split1 sep [] = [[]]"
| "str_split1 sep (c # cs) =
     (if startswith (c # cs) sep then [[], drop (length sep) (c # cs)]
      else (case str_split1 sep cs of
              [] \<Rightarrow> []
            | a # rest \<Rightarrow> (c # a) # rest))"

text \<open>\<^verbatim>\<open>sep.join(parts)\<close>\<close>

fun str_join :: "string \<Rightarrow> string list \<Rightarrow> string" where
  "str_join sep [] = []"
| "str_join sep [x] = x"
| "str_join sep (x # y # ys) = x @ sep @ str_join sep (y # ys)"

subsection \<open>JSON values\<close>

text \<open>
  The values \<^verbatim>\<open>json.loads\<close> builds and \<^verbatim>\<open>json.dumps\<close> accepts, without floating
  point numbers. A \<^verbatim>\<open>dict\<close> keeps its insertion order, so it is an association list; its
  keys are strings, as in every dictionary the source builds.
\<close>

datatype json =
    JNull
  | JBool bool
  | JInt int
  | JStr string
  | JList "json list"
  | JDict "(string \<times> json) list"

text \<open>The keys of every dictionary are distinct, as in a Python \<^verbatim>\<open>dict\<close>.\<close>

fun wf_json :: "json \<Rightarrow> bool" where
  "wf_json (JList xs) = list_all wf_json xs"
| "wf_json (JDict kvs) = (distinct (map fst kvs) \<and> list_all (\<lambda>kv. wf_json (snd kv)) kvs)"
| "wf_json _ = True"

text \<open>Truth value of a Python object, as \<^verbatim>\<open>if x\<close>, \<^verbatim>\<open>not x\<close> and \<^verbatim>\<open>x or y\<close> take it.\<close>

fun truthy :: "json \<Rightarrow> bool" where
  "truthy JNull = False"
| "truthy (JBool b) = b"
| "truthy (JInt i) = (i \<noteq> 0)"
| "truthy (JStr s) = (s \<noteq> [])"
| "truthy (JList xs) = (xs \<noteq> [])"
| "truthy (JDict kvs) = (kvs \<noteq> [])"

text \<open>\<^verbatim>\<open>d[k] = v\<close>: an existing key keeps its place, a new key goes last.\<close>

fun dict_set :: "(string \<times> 'v) list \<Rightarrow> string \<Rightarrow> 'v \<Rightarrow> (string \<times> 'v) list" where
  "dict_set [] k v = [(k, v)]"
| "dict_set (p # ps) k v = (if fst p = k then (k, v) # ps else p # dict_set ps k v)"

text \<open>\<^verbatim>\<open>dict(pairs)\<close>\<close>

definition dict_of_pairs :: "(string \<times> 'v) list \<Rightarrow> (string \<times> 'v) list" where
  "dict_of_pairs ps = foldl (\<lambda>d kv. dict_set d (fst kv) (snd kv)) [] ps"

text \<open>\<^verbatim>\<open>d.get(k)\<close> is \<^term>\<open>map_of d k\<close>, with \<^term>\<open>None\<close> for a missing key.\<close>

subsection \<open>Decimal and hexadecimal digits\<close>

definition digit_char :: "nat \<Rightarrow> char" where
  "digit_char d = ''0123456789abcdef'' ! d"

fun digits_of_nat :: "nat \<Rightarrow> string" where
  "digits_of_nat n =
     (if n < 10 then [digit_char n] else digits_of_nat (n div 10) @ [digit_char (n mod 10)])"

declare digits_of_nat.simps [simp del]

text \<open>\<^verbatim>\<open>str(i)\<close> and \<^verbatim>\<open>repr(i)\<close> of an integer\<close>

definition int_repr :: "int \<Rightarrow> string" where
  "int_repr i = (if i < 0 then CHR ''-'' # digits_of_nat (nat (- i)) else digits_of_nat (nat i))"

definition is_digit :: "char \<Rightarrow> bool" where
  "is_digit c = (48 \<le> (of_char c :: nat) \<and> (of_char c :: nat) \<le> 57)"

definition digit_val :: "char \<Rightarrow> nat" where
  "digit_val c = of_char c - 48"

definition nat_of_digits :: "string \<Rightarrow> nat" where
  "nat_of_digits ds = foldl (\<lambda>a c. 10 * a + digit_val c) 0 ds"

definition hex_val :: "char \<Rightarrow> nat option" where
  "hex_val c =
     (let n = (of_char c :: nat) in
      if 48 \<le> n \<and> n \<le> 57 then Some (n - 48)
      else if 97 \<le> n \<and> n \<le> 102 then Some (n - 87)
      else if 65 \<le> n \<and> n \<le> 70 then Some (n - 55)
      else None)"

subsection \<open>\<^verbatim>\<open>json.dumps\<close>\<close>

text \<open>
  The encoder with its default options: \<^verbatim>\<open>ensure_ascii\<close> is on, so inside a string
  the quote, the backslash and the control characters get their two-character escapes and
  every other character outside the range from space to \<^verbatim>\<open>~\<close> is written
  \<^verbatim>\<open>\u00XX\<close> with lower-case digits; items are separated by a comma and a space, keys
  from values by a colon and a space. The characters \<^verbatim>\<open><\<close> and \<^verbatim>\<open>>\<close> are not escaped.
\<close>

definition json_escape :: "char \<Rightarrow> string" where
  "json_escape c =
     (if c = CHR 0x22 then [CHR 0x5C, CHR 0x22]
      else if c = CHR 0x5C then [CHR 0x5C, CHR 0x5C]
      else if c = CHR 0x0A then [CHR 0x5C, CHR ''n'']
      else if c = CHR 0x0D then [CHR 0x5C, CHR ''r'']
      else if c = CHR 0x09 then [CHR 0x5C, CHR ''t'']
      else if c = CHR 0x08 then [CHR 0x5C, CHR ''b'']
      else if c = CHR 0x0C then [CHR 0x5C, CHR ''f'']
      else if (of_char c :: nat) < 32 \<or> 126 < (of_char c :: nat)
      then [CHR 0x5C, CHR ''u'', CHR ''0'', CHR ''0'',
            digit_char (of_char c div 16), digit_char (of_char c mod 16)]
      else [c])"

definition encode_basestring_ascii :: "string \<Rightarrow> string" where
  "encode_basestring_ascii s = CHR 0x22 # concat (map json_escape s) @ [CHR 0x22]"

fun dumps :: "json \<Rightarrow> string" where
  "dumps JNull = ''null''"
| "dumps (JBool b) = (if b then ''true'' else ''false'')"
| "dumps (JInt i) = int_repr i"
| "dumps (JStr s) = encode_basestring_ascii s"
| "dumps (JList xs) = ''['' @ str_join '', '' (map dumps xs) @ '']''"
| "dumps (JDict kvs) =
     ''{'' @ str_join '', '' (map (\<lambda>kv. encode_basestring_ascii (fst kv) @ '': '' @ dumps (snd kv)) kvs)
       @ ''}''"

subsection \<open>\<^verbatim>\<open>json.loads\<close>\<close>

text \<open>
  The decoder follows the scanner of Python's \<^verbatim>\<open>json.decoder\<close>: \<^verbatim>\<open>scan_once\<close>
  dispatches on the first character, \<^verbatim>\<open>JSONObject\<close> and \<^verbatim>\<open>JSONArray\<close> read the
  members and items, \<^verbatim>\<open>scanstring\<close> reads a string after its opening quote. Each returns
  the value and the text that follows it, or \<^term>\<open>None\<close> where Python raises
  \<^verbatim>\<open>JSONDecodeError\<close>. Two kinds of input that Python accepts are outside the value model and
  are refused here: numerals with a fraction or an exponent (and \<^verbatim>\<open>NaN\<close>, \<^verbatim>\<open>Infinity\<close>),
  and \<^verbatim>\<open>\uXXXX\<close> escapes above U+00FF.
\<close>

definition is_ws :: "char \<Rightarrow> bool" where
  "is_ws c = (c = CHR '' '' \<or> c = CHR 0x09 \<or> c = CHR 0x0A \<or> c = CHR 0x0D)"

definition skip_ws :: "string \<Rightarrow> string" where
  "skip_ws s = dropWhile is_ws s"

text \<open>The character an escape letter stands for (\<^verbatim>\<open>BACKSLASH\<close> of the decoder).\<close>

definition backslash :: "char \<Rightarrow> char option" where
  "backslash e =
     (if e = CHR 0x22 then Some (CHR 0x22)
      else if e = CHR 0x5C then Some (CHR 0x5C)
      else if e = CHR ''/'' then Some (CHR ''/'')
      else if e = CHR ''b'' then Some (CHR 0x08)
      else if e = CHR ''f'' then Some (CHR 0x0C)
      else if e = CHR ''n'' then Some (CHR 0x0A)
      else if e = CHR ''r'' then Some (CHR 0x0D)
      else if e = CHR ''t'' then Some (CHR 0x09)
      else None)"

text \<open>The four hexadecimal digits after \<^verbatim>\<open>\u\<close>.\<close>

definition decode_uXXXX :: "string \<Rightarrow> nat option" where
  "decode_uXXXX s =
     (case map hex_val (take 4 s) of
        [Some a, Some b, Some c, Some d] \<Rightarrow> Some (((a * 16 + b) * 16 + c) * 16 + d)
      | _ \<Rightarrow> None)"

fun scanstring :: "string \<Rightarrow> (string \<times> string) option" where
  "scanstring [] = None"
| "scanstring (c # cs) =
     (if c = CHR 0x22 then Some ([], cs)
      else if c = CHR 0x5C then
        (case cs of
           [] \<Rightarrow> None
         | e # es \<Rightarrow>
             if e = CHR ''u'' then
               (case decode_uXXXX es of
                  None \<Rightarrow> None
                | Some n \<Rightarrow>
                    if n < 256
                    then map_option (\<lambda>(t, r). (char_of n # t, r)) (scanstring (drop 4 es))
                    else None)
             else
               (case backslash e of
                  None \<Rightarrow> None
                | Some ch \<Rightarrow> map_option (\<lambda>(t, r). (ch # t, r)) (scanstring es)))
      else if (of_char c :: nat) < 32 then None
      else map_option (\<lambda>(t, r). (c # t, r)) (scanstring cs))"

text \<open>
  \<^verbatim>\<open>NUMBER_RE\<close>: an optional minus sign, then \<^verbatim>\<open>0\<close> or a digit string that does
  not start with \<^verbatim>\<open>0\<close>; a fraction or an exponent after it makes the numeral a float.
\<close>

definition is_float_tail :: "string \<Rightarrow> bool" where
  "is_float_tail r =
     (case r of
        [] \<Rightarrow> False
      | c # cs \<Rightarrow>
          if c = CHR ''.'' then (case cs of [] \<Rightarrow> False | d # _ \<Rightarrow> is_digit d)
          else if c = CHR ''e'' \<or> c = CHR ''E'' then
            (case cs of
               [] \<Rightarrow> False
             | d # ds \<Rightarrow>
                 if d = CHR ''+'' \<or> d = CHR ''-''
                 then (case ds of [] \<Rightarrow> False | d' # _ \<Rightarrow> is_digit d')
                 else is_digit d)
          else False)"

definition match_number :: "string \<Rightarrow> (json \<times> string) option" where
  "match_number s =
     (let neg = startswith s ''-'';
          t = (if neg then tl s else s)
      in case t of
           [] \<Rightarrow> None
         | c # cs \<Rightarrow>
             if \<not> is_digit c then None
             else
               (let ds = (if c = CHR ''0'' then [c] else takeWhile is_digit t);
                    r = (if c = CHR ''0'' then cs else dropWhile is_digit t)
                in if is_float_tail r then None
                   else Some (JInt (if neg then - int (nat_of_digits ds) else int (nat_of_digits ds)), r)))"

lemma skip_ws_length: "length (skip_ws s) \<le> length s"
  by (simp add: skip_ws_def length_dropWhile_le)

lemma scanstring_shorter: "scanstring s = Some (t, r) \<Longrightarrow> length r < length s"
proof (induction s arbitrary: t r rule: scanstring.induct)
  case 1
  then show ?case by simp
next
  case (2 c cs)
  show ?case
  proof (cases "c = CHR 0x22")
    case True
    with "2.prems" show ?thesis by simp
  next
    case quote: False
    show ?thesis
    proof (cases "c = CHR 0x5C")
      case True
      note bs = this
      show ?thesis
      proof (cases cs)
        case Nil
        with "2.prems" quote bs show ?thesis by simp
      next
        case (Cons e es)
        show ?thesis
        proof (cases "e = CHR ''u''")
          case True
          with "2.prems" quote bs Cons obtain n t' where
            n: "decode_uXXXX es = Some n" "n < 256" and
            rec: "scanstring (drop 4 es) = Some (t', r)"
            by (auto split: option.splits if_splits)
          from "2.IH"(1) [OF quote bs Cons True n(1) n(2) rec]
          have "length r < length (drop 4 es)" .
          with Cons show ?thesis by simp
        next
          case False
          with "2.prems" quote bs Cons obtain ch t' where
            ch: "backslash e = Some ch" and rec: "scanstring es = Some (t', r)"
            by (auto split: option.splits)
          from "2.IH"(2) [OF quote bs Cons False ch rec]
          show ?thesis using Cons by simp
        qed
      qed
    next
      case False
      with "2.prems" quote obtain t' where
        ctl: "\<not> (of_char c :: nat) < 32" and rec: "scanstring cs = Some (t', r)"
        by (auto split: if_splits)
      from "2.IH"(3) [OF quote False ctl rec] show ?thesis by simp
    qed
  qed
qed

function scan_once :: "string \<Rightarrow> (json \<times> string) option"
  and JSONArray :: "string \<Rightarrow> (json list \<times> string) option"
  and JSONObject :: "string \<Rightarrow> ((string \<times> json) list \<times> string) option"
where
  "scan_once s =
     (case s of
        [] \<Rightarrow> None
      | c # cs \<Rightarrow>
          if c = CHR 0x22 then map_option (\<lambda>(t, r). (JStr t, r)) (scanstring cs)
          else if c = CHR ''{'' then
            (case skip_ws cs of
               [] \<Rightarrow> None
             | d # ds \<Rightarrow>
                 if d = CHR ''}'' then Some (JDict [], ds)
                 else if d = CHR 0x22
                 then map_option (\<lambda>(ps, r). (JDict (dict_of_pairs ps), r)) (JSONObject ds)
                 else None)
          else if c = CHR ''['' then
            (case skip_ws cs of
               [] \<Rightarrow> None
             | d # ds \<Rightarrow>
                 if d = CHR '']'' then Some (JList [], ds)
                 else map_option (\<lambda>(vs, r). (JList vs, r)) (JSONArray (d # ds)))
          else if startswith s ''null'' then Some (JNull, drop 4 s)
          else if startswith s ''true'' then Some (JBool True, drop 4 s)
          else if startswith s ''false'' then Some (JBool False, drop 5 s)
          else match_number s)"
| "JSONArray s =
     (case scan_once s of
        None \<Rightarrow> None
      | Some (v, r) \<Rightarrow>
          (case skip_ws r of
             [] \<Rightarrow> None
           | d # ds \<Rightarrow>
               if d = CHR '']'' then Some ([v], ds)
               else if d = CHR '','' \<and> length ds < length s
               then map_option (\<lambda>(vs, r'). (v # vs, r')) (JSONArray (skip_ws ds))
               else None))"
| "JSONObject s =
     (case scanstring s of
        None \<Rightarrow> None
      | Some (key, r) \<Rightarrow>
          (case skip_ws r of
             [] \<Rightarrow> None
           | d # ds \<Rightarrow>
               if d \<noteq> CHR '':'' then None
               else
                 (case scan_once (skip_ws ds) of
                    None \<Rightarrow> None
                  | Some (v, r2) \<Rightarrow>
                      (case skip_ws r2 of
                         [] \<Rightarrow> None
                       | e # es \<Rightarrow>
                           if e = CHR ''}'' then Some ([(key, v)], es)
                           else if e = CHR '','' then
                             (case skip_ws es of
                                [] \<Rightarrow> None
                              | q # qs \<Rightarrow>
                                  if q = CHR 0x22 \<and> length qs < length s
                                  then map_option (\<lambda>(ps, r'). ((key, v) # ps, r')) (JSONObject qs)
                                  else None)
                           else None))))"
  by pat_completeness auto
termination
proof (relation "measure (\<lambda>x. case x of
          Inl s \<Rightarrow> 2 * length s
        | Inr (Inl s) \<Rightarrow> 2 * length s + 1
        | Inr (Inr s) \<Rightarrow> 2 * length s + 1)", goal_cases)
  case 1
  show ?case by simp
next
  case (2 s c cs d ds)
  have "length (skip_ws cs) \<le> length cs" by (rule skip_ws_length)
  with 2 show ?case by simp
next
  case (3 s c cs d ds)
  have "length (skip_ws cs) \<le> length cs" by (rule skip_ws_length)
  with 3 show ?case by simp
next
  case (4 s)
  show ?case by simp
next
  case (5 s x v r d ds)
  have "length (skip_ws ds) \<le> length ds" by (rule skip_ws_length)
  with 5 show ?case by simp
next
  case (6 s x key r d ds)
  have a: "length r < length s" using 6 by (auto dest: scanstring_shorter)
  have b: "length (skip_ws r) \<le> length r" by (rule skip_ws_length)
  have c: "length (skip_ws ds) \<le> length ds" by (rule skip_ws_length)
  from 6 a b c show ?case by simp
next
  case (7 s x key r d ds y v r2 e es q qs)
  then show ?case by simp
qed

declare scan_once.simps [simp del] JSONArray.simps [simp del] JSONObject.simps [simp del]

text \<open>
  The exceptions of the model. For an exception raised inside the Python library the class
  is kept, the wording of its message is not.
\<close>

datatype exn =
    JSONDecodeError
  | UnicodeDecodeError
  | KeyError string
  | TypeError
  | AttributeError
  | ValueError
  | OSError string

text \<open>\<^verbatim>\<open>json.loads(s)\<close>: white space around the one value, nothing else after it.\<close>

definition loads :: "string \<Rightarrow> exn + json" where
  "loads s =
     (case scan_once (skip_ws s) of
        None \<Rightarrow> Inl JSONDecodeError
      | Some (v, r) \<Rightarrow> if skip_ws r = [] then Inr v else Inl JSONDecodeError)"

subsection \<open>\<^verbatim>\<open>str(e)\<close>, \<^verbatim>\<open>str(x)\<close> and \<^verbatim>\<open>repr(x)\<close>\<close>

definition hex2 :: "char \<Rightarrow> string" where
  "hex2 c = [digit_char (of_char c div 16), digit_char (of_char c mod 16)]"

definition repr_char :: "char \<Rightarrow> char \<Rightarrow> string" where
  "repr_char q c =
     (let n = (of_char c :: nat) in
      if c = q \<or> c = CHR 0x5C then [CHR 0x5C, c]
      else if c = CHR 0x09 then [CHR 0x5C, CHR ''t'']
      else if c = CHR 0x0A then [CHR 0x5C, CHR ''n'']
      else if c = CHR 0x0D then [CHR 0x5C, CHR ''r'']
      else if n < 32 \<or> n = 127 then [CHR 0x5C, CHR ''x''] @ hex2 c
      else if n < 127 then [c]
      else if 161 \<le> n \<and> n \<noteq> 173 then [c]
      else [CHR 0x5C, CHR ''x''] @ hex2 c)"

definition repr_str :: "string \<Rightarrow> string" where
  "repr_str s =
     (let q = (if CHR 0x27 \<in> set s \<and> CHR 0x22 \<notin> set s then CHR 0x22 else CHR 0x27)
      in q # concat (map (repr_char q) s) @ [q])"

fun py_repr :: "json \<Rightarrow> string" where
  "py_repr JNull = ''None''"
| "py_repr (JBool b) = (if b then ''True'' else ''False'')"
| "py_repr (JInt i) = int_repr i"
| "py_repr (JStr s) = repr_str s"
| "py_repr (JList xs) = ''['' @ str_join '', '' (map py_repr xs) @ '']''"
| "py_repr (JDict kvs) =
     ''{'' @ str_join '', '' (map (\<lambda>kv. repr_str (fst kv) @ '': '' @ py_repr (snd kv)) kvs) @ ''}''"

text \<open>\<^verbatim>\<open>f'{x}'\<close> formats with \<^verbatim>\<open>str(x)\<close>: a string as it is, anything else as its repr.\<close>

definition py_str :: "json \<Rightarrow> string" where
  "py_str x = (case x of JStr s \<Rightarrow> s | _ \<Rightarrow> py_repr x)"

fun exn_str :: "exn \<Rightarrow> string" where
  "exn_str JSONDecodeError = ''JSONDecodeError''"
| "exn_str UnicodeDecodeError = ''UnicodeDecodeError''"
| "exn_str (KeyError k) = repr_str k"
| "exn_str TypeError = ''TypeError''"
| "exn_str AttributeError = ''AttributeError''"
| "exn_str ValueError = ''ValueError''"
| "exn_str (OSError m) = m"

text \<open>\<^verbatim>\<open>x[k]\<close> and \<^verbatim>\<open>x.get(k, default)\<close> on a decoded value: only a dictionary has them.\<close>

definition py_getitem :: "json \<Rightarrow> string \<Rightarrow> exn + json" where
  "py_getitem x k =
     (case x of
        JDict d \<Rightarrow> (case map_of d k of None \<Rightarrow> Inl (KeyError k) | Some v \<Rightarrow> Inr v)
      | _ \<Rightarrow> Inl TypeError)"

definition py_get :: "json \<Rightarrow> string \<Rightarrow> json \<Rightarrow> exn + json" where
  "py_get x k dflt =
     (case x of
        JDict d \<Rightarrow> (case map_of d k of None \<Rightarrow> Inr dflt | Some v \<Rightarrow> Inr v)
      | _ \<Rightarrow> Inl AttributeError)"

subsection \<open>UTF-8\<close>

text \<open>
  \<^verbatim>\<open>s.encode('utf-8')\<close> and \<^verbatim>\<open>b.decode('utf-8')\<close> on the code points of the model.
  A byte sequence that is not UTF-8 raises \<^verbatim>\<open>UnicodeDecodeError\<close>; so does, in the model
  only, one that encodes a code point above U+00FF.
\<close>

definition encode_utf8 :: "string \<Rightarrow> bytes" where
  "encode_utf8 s =
     concat (map (\<lambda>c. if (of_char c :: nat) < 128 then [c]
                       else [char_of (192 + (of_char c :: nat) div 64),
                             char_of (128 + (of_char c :: nat) mod 64)]) s)"

fun decode_utf8 :: "bytes \<Rightarrow> exn + string" where
  "decode_utf8 [] = Inr []"
| "decode_utf8 (b # bs) =
     (if (of_char b :: nat) < 128 then
        (case decode_utf8 bs of Inl e \<Rightarrow> Inl e | Inr t \<Rightarrow> Inr (b # t))
      else if (of_char b :: nat) = 194 \<or> (of_char b :: nat) = 195 then
        (case bs of
           [] \<Rightarrow> Inl UnicodeDecodeError
         | b2 # bs' \<Rightarrow>
             if 128 \<le> (of_char b2 :: nat) \<and> (of_char b2 :: nat) < 192 then
               (case decode_utf8 bs' of
                  Inl e \<Rightarrow> Inl e
                | Inr t \<Rightarrow> Inr (char_of (((of_char b :: nat) - 192) * 64 + ((of_char b2 :: nat) - 128)) # t))
             else Inl UnicodeDecodeError)
      else Inl UnicodeDecodeError)"

section \<open>\<^verbatim>\<open>protocol.py\<close>\<close>

definition CMD_DIR :: string where "CMD_DIR = ''DIR''"
definition CMD_DELETE :: string where "CMD_DELETE = ''DELETE''"
definition CMD_COPY :: string where "CMD_COPY = ''COPY''"
definition CMD_EXECUTE :: string where "CMD_EXECUTE = ''EXECUTE''"
definition CMD_SCREENSHOT :: string where "CMD_SCREENSHOT = ''TAKE_SCREENSHOT''"
definition CMD_SEND_PHOTO :: string where "CMD_SEND_PHOTO = ''SEND_PHOTO''"
definition CMD_EXIT :: string where "CMD_EXIT = ''EXIT''"

definition STATUS_SUCCESS :: string where "STATUS_SUCCESS = ''success''"
definition STATUS_ERROR :: string where "STATUS_ERROR = ''error''"

definition MESSAGE_END :: string where "MESSAGE_END = ''<END>''"

text \<open>\<^verbatim>\<open>x or {}\<close>\<close>

definition or_empty_dict :: "json \<Rightarrow> json" where
  "or_empty_dict x = (if truthy x then x else JDict [])"

text \<open>
  \<^verbatim>\<open>Protocol.create_request(command, params=None)\<close> and
  \<^verbatim>\<open>Protocol.create_response(status, message, data=None)\<close>; a missing argument is
  \<^term>\<open>JNull\<close>.
\<close>

definition create_request :: "json \<Rightarrow> json \<Rightarrow> string" where
  "create_request command params =
     dumps (JDict [(''type'', JStr ''request''), (''command'', command),
                   (''params'', or_empty_dict params)]) @ MESSAGE_END"

definition create_response :: "json \<Rightarrow> json \<Rightarrow> json \<Rightarrow> string" where
  "create_response status message data =
     dumps (JDict [(''type'', JStr ''response''), (''status'', status), (''message'', message),
                   (''data'', or_empty_dict data)]) @ MESSAGE_END"

text \<open>\<^verbatim>\<open>Protocol.parse_message(message)\<close>\<close>

definition parse_message :: "string \<Rightarrow> exn + json" where
  "parse_message message = loads (str_replace MESSAGE_END [] message)"

text \<open>
  \<^verbatim>\<open>Protocol.validate_command(command)\<close>: membership in a set of strings. A list or a
  dictionary cannot be hashed, so the test raises \<^verbatim>\<open>TypeError\<close> for it.
\<close>

definition valid_commands :: "string list" where
  "valid_commands =
     [CMD_DIR, CMD_DELETE, CMD_COPY, CMD_EXECUTE, CMD_SCREENSHOT, CMD_SEND_PHOTO, CMD_EXIT]"

definition validate_command :: "json \<Rightarrow> exn + bool" where
  "validate_command command =
     (case command of
        JList _ \<Rightarrow> Inl TypeError
      | JDict _ \<Rightarrow> Inl TypeError
      | JStr c \<Rightarrow> Inr (c \<in> set valid_commands)
      | _ \<Rightarrow> Inr False)"

subsection \<open>The socket\<close>

text \<open>
  A connected socket is seen from one side: \<open>rx\<close> lists what the successive calls of
  \<^verbatim>\<open>recv(4096)\<close> return, in order, and an empty element or the end of the list is the
  empty read of a closed connection; a loop of the source that reads is a recursion over
  this list. A \<^verbatim>\<open>send\<close> takes all the bytes it is given; \<open>tx\<close> lists what was sent, one
  element for each call.
\<close>

definition send :: "bytes list \<Rightarrow> bytes \<Rightarrow> nat \<times> bytes list" where
  "send tx data = (length data, tx @ [data])"

text \<open>\<^verbatim>\<open>Protocol.send_binary(comm_socket, binary_data)\<close>\<close>

function send_binary_loop :: "bytes list \<Rightarrow> bytes \<Rightarrow> nat \<Rightarrow> bytes list" where
  "send_binary_loop tx binary_data sent =
     (if sent < length binary_data
      then (case send tx (drop sent binary_data) of
              (n, tx') \<Rightarrow> send_binary_loop tx' binary_data (sent + n))
      else tx)"
  by pat_completeness auto
termination
  by (relation "measure (\<lambda>(tx, binary_data, sent). length binary_data - sent)")
     (auto simp: send_def)

declare send_binary_loop.simps [simp del]

definition send_binary :: "bytes list \<Rightarrow> bytes \<Rightarrow> bytes list" where
  "send_binary tx binary_data = send_binary_loop tx binary_data 0"

text \<open>
  \<^verbatim>\<open>Protocol.receive_binary(comm_socket, size)\<close>: the bytes collected and what is left
  to read.
\<close>

fun receive_binary_loop :: "bytes list \<Rightarrow> int \<Rightarrow> bytes \<Rightarrow> bytes \<times> bytes list" where
  "receive_binary_loop [] sz binary_data = (binary_data, [])"
| "receive_binary_loop (chunk # rx) sz binary_data =
     (if int (length binary_data) < sz
      then (if chunk = [] then (binary_data, rx)
            else receive_binary_loop rx sz (binary_data @ chunk))
      else (binary_data, chunk # rx))"

definition receive_binary :: "bytes list \<Rightarrow> int \<Rightarrow> bytes \<times> bytes list" where
  "receive_binary rx sz = receive_binary_loop rx sz []"

section \<open>\<^verbatim>\<open>server_2.7.py\<close>\<close>

subsection \<open>The operating system\<close>

text \<open>
  The command implementations call the file system, the process launcher and the screen
  grabber. These are the fields of an environment over a state \<open>'w\<close> of the machine; a call
  that raises gives the exception. A path argument is any decoded value, since it comes out
  of the request's parameters.
\<close>

record 'w os =
  os_path_exists :: "'w \<Rightarrow> json \<Rightarrow> exn + bool"
  os_listdir :: "'w \<Rightarrow> string \<Rightarrow> string list"
  glob_dirs :: "'w \<Rightarrow> string \<Rightarrow> string list"
  os_remove :: "'w \<Rightarrow> json \<Rightarrow> exn option \<times> 'w"
  shutil_copy :: "'w \<Rightarrow> json \<Rightarrow> json \<Rightarrow> exn option \<times> 'w"
  subprocess_Popen :: "'w \<Rightarrow> json \<Rightarrow> exn option \<times> 'w"
  screenshot_save :: "'w \<Rightarrow> json \<Rightarrow> exn option \<times> 'w"
  open_read :: "'w \<Rightarrow> json \<Rightarrow> exn + bytes"

text \<open>
  \<open>os_listdir\<close> gives the names in a directory, none when it cannot be read;
  \<open>glob_dirs\<close> gives the directories that a directory part with wildcards matches;
  \<open>screenshot_save\<close> is \<^verbatim>\<open>pyautogui.screenshot()\<close> followed by \<^verbatim>\<open>image.save(save_path)\<close>;
  \<open>open_read\<close> is \<^verbatim>\<open>open(image_path, 'rb')\<close> and \<^verbatim>\<open>f.read()\<close>.
\<close>

subsection \<open>\<^verbatim>\<open>os.path.join\<close> and \<^verbatim>\<open>glob.glob\<close>\<close>

text \<open>
  Paths as on POSIX. \<^verbatim>\<open>os.path.join(a, b)\<close> raises \<^verbatim>\<open>TypeError\<close> when \<^verbatim>\<open>a\<close> is
  not a string.
\<close>

definition posix_join :: "string \<Rightarrow> string \<Rightarrow> string" where
  "posix_join a b =
     (if startswith b ''/'' then b
      else if a = [] \<or> last a = CHR ''/'' then a @ b
      else a @ ''/'' @ b)"

definition os_path_join :: "json \<Rightarrow> string \<Rightarrow> exn + string" where
  "os_path_join a b = (case a of JStr p \<Rightarrow> Inr (posix_join p b) | _ \<Rightarrow> Inl TypeError)"

text \<open>\<^verbatim>\<open>os.path.split\<close>: the directory part, without its trailing slashes, and the last component.\<close>

definition os_path_split :: "string \<Rightarrow> string \<times> string" where
  "os_path_split p =
     (let tail = rev (takeWhile (\<lambda>c. c \<noteq> CHR ''/'') (rev p));
          head = rev (dropWhile (\<lambda>c. c \<noteq> CHR ''/'') (rev p))
      in (if head \<noteq> [] \<and> \<not> list_all (\<lambda>c. c = CHR ''/'') head
          then rev (dropWhile (\<lambda>c. c = CHR ''/'') (rev head))
          else head,
          tail))"

definition has_magic :: "string \<Rightarrow> bool" where
  "has_magic s = list_ex (\<lambda>c. c = CHR ''*'' \<or> c = CHR ''?'' \<or> c = CHR ''['') s"

definition ishidden :: "string \<Rightarrow> bool" where
  "ishidden name = startswith name ''.''"

text \<open>
  \<^verbatim>\<open>fnmatch\<close> of a name against a pattern made of \<^verbatim>\<open>*\<close>, \<^verbatim>\<open>?\<close> and literal
  characters (the source's pattern is \<^verbatim>\<open>*.*\<close>; bracket expressions are not modelled).
\<close>

fun fnmatch :: "string \<Rightarrow> string \<Rightarrow> bool" where
  "fnmatch [] [] = True"
| "fnmatch (c # cs) [] = False"
| "fnmatch [] (p # ps) = (p = CHR ''*'' \<and> fnmatch [] ps)"
| "fnmatch (c # cs) (p # ps) =
     (if p = CHR ''*'' then fnmatch (c # cs) ps \<or> fnmatch cs (p # ps)
      else (p = CHR ''?'' \<or> p = c) \<and> fnmatch cs ps)"

text \<open>\<^verbatim>\<open>_glob1\<close>: the names of a directory that match, hidden names left out for a pattern that is not hidden.\<close>

definition glob1 :: "'w os \<Rightarrow> 'w \<Rightarrow> string \<Rightarrow> string \<Rightarrow> string list" where
  "glob1 env w dirname pattern =
     filter (\<lambda>x. fnmatch x pattern)
       (if ishidden pattern then os_listdir env w dirname
        else filter (\<lambda>x. \<not> ishidden x) (os_listdir env w dirname))"

text \<open>
  \<^verbatim>\<open>glob.glob(pathname)\<close> for a pathname whose last component holds a wildcard, as the
  one \<^verbatim>\<open>cmd_dir\<close> builds: the matches in the directory part, or in every directory the
  directory part matches when it holds wildcards itself.
\<close>

definition glob_glob :: "'w os \<Rightarrow> 'w \<Rightarrow> string \<Rightarrow> string list" where
  "glob_glob env w pathname =
     (case os_path_split pathname of
        (dirname, basename) \<Rightarrow>
          if dirname = [] then glob1 env w [] basename
          else
            (let dirs = (if dirname \<noteq> pathname \<and> has_magic dirname
                         then glob_dirs env w dirname else [dirname])
             in concat (map (\<lambda>d. map (posix_join d) (glob1 env w d basename)) dirs)))"

subsection \<open>Command implementations\<close>

text \<open>
  A result is the dictionary a command returns: \<open>status\<close>, \<open>message\<close>, and for some
  commands \<open>data\<close> and the bytes under \<open>binary\<close>.
\<close>

datatype pyval = PJ json | PB bytes

type_synonym pydict = "(string \<times> pyval) list"

definition error_result :: "string \<Rightarrow> pydict" where
  "error_result m = [(''status'', PJ (JStr STATUS_ERROR)), (''message'', PJ (JStr m))]"

definition success_result :: "string \<Rightarrow> pydict" where
  "success_result m = [(''status'', PJ (JStr STATUS_SUCCESS)), (''message'', PJ (JStr m))]"

definition cmd_dir :: "'w os \<Rightarrow> 'w \<Rightarrow> json \<Rightarrow> pydict" where
  "cmd_dir env w path =
     (case os_path_exists env w path of
        Inl e \<Rightarrow> error_result (exn_str e) @ [(''data'', PJ (JDict [(''files'', JList [])]))]
      | Inr ex \<Rightarrow>
          if \<not> ex
          then error_result (''Path does not exist: '' @ py_str path)
                 @ [(''data'', PJ (JDict [(''files'', JList [])]))]
          else
            (case os_path_join path ''*.*'' of
               Inl e \<Rightarrow> error_result (exn_str e) @ [(''data'', PJ (JDict [(''files'', JList [])]))]
             | Inr pattern \<Rightarrow>
                 (let files_list = glob_glob env w pattern
                  in success_result (''Found '' @ int_repr (int (length files_list))
                                       @ '' files in '' @ py_str path)
                       @ [(''data'', PJ (JDict [(''files'', JList (map JStr files_list)),
                                               (''count'', JInt (int (length files_list)))]))])))"

definition cmd_delete :: "'w os \<Rightarrow> 'w \<Rightarrow> json \<Rightarrow> pydict \<times> 'w" where
  "cmd_delete env w file_path =
     (if \<not> truthy file_path then (error_result ''No file path provided'', w)
      else
        (case os_path_exists env w file_path of
           Inl e \<Rightarrow> (error_result (exn_str e), w)
         | Inr ex \<Rightarrow>
             if ex then
               (case os_remove env w file_path of
                  (None, w') \<Rightarrow> (success_result (''File deleted: '' @ py_str file_path), w')
                | (Some e, w') \<Rightarrow> (error_result (exn_str e), w'))
             else (error_result (''File does not exist: '' @ py_str file_path), w)))"

definition cmd_copy :: "'w os \<Rightarrow> 'w \<Rightarrow> json \<Rightarrow> json \<Rightarrow> pydict \<times> 'w" where
  "cmd_copy env w source destination =
     (if \<not> truthy source \<or> \<not> truthy destination
      then (error_result ''Missing source or destination'', w)
      else
        (case os_path_exists env w source of
           Inl e \<Rightarrow> (error_result (exn_str e), w)
         | Inr ex1 \<Rightarrow>
             (case (if ex1 then os_path_exists env w destination else Inr False) of
                Inl e \<Rightarrow> (error_result (exn_str e), w)
              | Inr ex2 \<Rightarrow>
                  if ex2 then
                    (case shutil_copy env w source destination of
                       (None, w') \<Rightarrow>
                         (success_result (''File copied: '' @ py_str source @ '' -> ''
                                            @ py_str destination), w')
                     | (Some e, w') \<Rightarrow> (error_result (exn_str e), w'))
                  else
                    (error_result (''Source or Destination file does not exist: ''
                                     @ py_str source @ '','' @ py_str destination
                                     @ [CHR 0x0A] @ '' I THINK YOU KNOW WHO IT IS!!!''), w))))"

definition cmd_execute :: "'w os \<Rightarrow> 'w \<Rightarrow> json \<Rightarrow> pydict \<times> 'w" where
  "cmd_execute env w program_path =
     (if \<not> truthy program_path then (error_result ''No program path provided'', w)
      else
        (case subprocess_Popen env w program_path of
           (None, w') \<Rightarrow> (success_result (''Program executed: '' @ py_str program_path), w')
         | (Some e, w') \<Rightarrow> (error_result (exn_str e), w')))"

definition cmd_screenshot :: "'w os \<Rightarrow> 'w \<Rightarrow> json \<Rightarrow> pydict \<times> 'w" where
  "cmd_screenshot env w save_path =
     (case screenshot_save env w save_path of
        (None, w') \<Rightarrow>
          (success_result (''Screenshot saved: '' @ py_str save_path)
             @ [(''data'', PJ (JDict [(''path'', save_path)]))], w')
      | (Some e, w') \<Rightarrow> (error_result (exn_str e), w'))"

definition cmd_send_photo :: "'w os \<Rightarrow> 'w \<Rightarrow> json \<Rightarrow> pydict" where
  "cmd_send_photo env w image_path =
     (case open_read env w image_path of
        Inr binary_data \<Rightarrow>
          success_result (''Photo ready to send: '' @ py_str image_path)
            @ [(''data'', PJ (JDict [(''size'', JInt (int (length binary_data)))])),
               (''binary'', PB binary_data)]
      | Inl e \<Rightarrow> error_result (exn_str e))"

subsection \<open>\<^verbatim>\<open>execute_command\<close>\<close>

text \<open>
  The chain of comparisons of the source, in its order. \<^verbatim>\<open>params.get\<close> is reached only
  inside a branch, and raises \<^verbatim>\<open>AttributeError\<close> there when the parameters are not a
  dictionary.
\<close>

definition execute_command :: "'w os \<Rightarrow> 'w \<Rightarrow> json \<Rightarrow> json \<Rightarrow> exn + pydict \<times> 'w" where
  "execute_command env w command params =
     (if command = JStr CMD_DIR then
        (case py_get params ''path'' (JStr ''.'') of
           Inl e \<Rightarrow> Inl e
         | Inr path \<Rightarrow> Inr (cmd_dir env w path, w))
      else if command = JStr CMD_DELETE then
        (case py_get params ''file_path'' JNull of
           Inl e \<Rightarrow> Inl e
         | Inr file_path \<Rightarrow> Inr (cmd_delete env w file_path))
      else if command = JStr CMD_COPY then
        (case py_get params ''source'' JNull of
           Inl e \<Rightarrow> Inl e
         | Inr source \<Rightarrow>
             (case py_get params ''destination'' JNull of
                Inl e \<Rightarrow> Inl e
              | Inr destination \<Rightarrow> Inr (cmd_copy env w source destination)))
      else if command = JStr CMD_EXECUTE then
        (case py_get params ''program_path'' JNull of
           Inl e \<Rightarrow> Inl e
         | Inr program_path \<Rightarrow> Inr (cmd_execute env w program_path))
      else if command = JStr CMD_SCREENSHOT then
        (case py_get params ''save_path'' (JStr ''screen.jpg'') of
           Inl e \<Rightarrow> Inl e
         | Inr save_path \<Rightarrow> Inr (cmd_screenshot env w save_path))
      else if command = JStr CMD_SEND_PHOTO then
        (case py_get params ''image_path'' JNull of
           Inl e \<Rightarrow> Inl e
         | Inr image_path \<Rightarrow> Inr (cmd_send_photo env w image_path, w))
      else if command = JStr CMD_EXIT then
        Inr (success_result ''Goodbye'', w)
      else Inr (error_result ''Unknown command'', w))"

subsection \<open>\<^verbatim>\<open>handle_client\<close>\<close>

text \<open>
  The state of one connection: what has been passed to \<^verbatim>\<open>send\<close>, the text buffer, the
  state of the machine, and (for the statements below, not in the source) the messages cut
  off the buffer so far.
\<close>

record 'w conn =
  tx :: "bytes list"
  buffer :: string
  world :: "'w"
  frames :: "string list"

definition new_conn :: "'w \<Rightarrow> 'w conn" where
  "new_conn w = \<lparr>tx = [], buffer = [], world = w, frames = []\<rparr>"

definition send_text :: "'w conn \<Rightarrow> string \<Rightarrow> 'w conn" where
  "send_text c text = c\<lparr>tx := snd (send (tx c) (encode_utf8 text))\<rparr>"

text \<open>The \<^verbatim>\<open>except Exception\<close> branch: an error response with \<^verbatim>\<open>str(e)\<close>, then the loop ends.\<close>

definition fail :: "'w conn \<Rightarrow> exn \<Rightarrow> 'w conn" where
  "fail c e = send_text c (create_response (JStr STATUS_ERROR) (JStr (exn_str e)) JNull)"

definition as_json :: "pyval \<Rightarrow> exn + json" where
  "as_json v = (case v of PJ j \<Rightarrow> Inr j | PB _ \<Rightarrow> Inl TypeError)"

definition result_item :: "pydict \<Rightarrow> string \<Rightarrow> exn + json" where
  "result_item result k =
     (case map_of result k of None \<Rightarrow> Inl (KeyError k) | Some v \<Rightarrow> as_json v)"

text \<open>
  The response to a command that was executed, the binary data after it, and whether the
  loop goes on (it ends after \<^verbatim>\<open>EXIT\<close>).
\<close>

definition respond :: "'w conn \<Rightarrow> json \<Rightarrow> pydict \<Rightarrow> bool \<times> 'w conn" where
  "respond c command result =
     (case result_item result ''status'' of
        Inl e \<Rightarrow> (False, fail c e)
      | Inr status \<Rightarrow>
          (case result_item result ''message'' of
             Inl e \<Rightarrow> (False, fail c e)
           | Inr message \<Rightarrow>
               (case (case map_of result ''data'' of None \<Rightarrow> Inr (JDict []) | Some v \<Rightarrow> as_json v) of
                  Inl e \<Rightarrow> (False, fail c e)
                | Inr data \<Rightarrow>
                    (let c1 = send_text c (create_response status message data)
                     in case map_of result ''binary'' of
                          None \<Rightarrow> (command \<noteq> JStr CMD_EXIT, c1)
                        | Some (PB binary) \<Rightarrow>
                            (command \<noteq> JStr CMD_EXIT, c1\<lparr>tx := send_binary (tx c1) binary\<rparr>)
                        | Some (PJ _) \<Rightarrow> (False, fail c1 TypeError)))))"

text \<open>
  The body of the loop once the received text is in the buffer: at most one message is
  cut off the buffer, at the first marker, and handled. The first component says whether the
  loop goes on.
\<close>

definition serve :: "'w os \<Rightarrow> 'w conn \<Rightarrow> bool \<times> 'w conn" where
  "serve env c =
     (if str_contains MESSAGE_END (buffer c) then
        (case str_split1 MESSAGE_END (buffer c) of
           [message, rest] \<Rightarrow>
             (let c1 = c\<lparr>buffer := rest, frames := frames c @ [message]\<rparr>
              in case parse_message (message @ MESSAGE_END) of
                   Inl e \<Rightarrow> (False, fail c1 e)
                 | Inr request \<Rightarrow>
                     (case py_getitem request ''command'' of
                        Inl e \<Rightarrow> (False, fail c1 e)
                      | Inr command \<Rightarrow>
                          (case validate_command command of
                             Inl e \<Rightarrow> (False, fail c1 e)
                           | Inr valid \<Rightarrow>
                               if \<not> valid then
                                 (True, send_text c1
                                          (create_response (JStr STATUS_ERROR)
                                             (JStr ''Invalid command'') JNull))
                               else
                                 (case py_get request ''params'' (JDict []) of
                                    Inl e \<Rightarrow> (False, fail c1 e)
                                  | Inr params \<Rightarrow>
                                      (case execute_command env (world c1) command params of
                                         Inl e \<Rightarrow> (False, fail c1 e)
                                       | Inr (result, w') \<Rightarrow>
                                           respond (c1\<lparr>world := w'\<rparr>) command result)))))
         | _ \<Rightarrow> (False, fail c ValueError))
      else (True, c))"

text \<open>
  The loop over the reads of the socket: an empty read ends it, a read that does not decode
  raises, anything else is appended to the buffer and served.
\<close>

fun handle_client :: "'w os \<Rightarrow> bytes list \<Rightarrow> 'w conn \<Rightarrow> 'w conn" where
  "handle_client env [] c = c"
| "handle_client env (raw # rx) c =
     (case decode_utf8 raw of
        Inl e \<Rightarrow> fail c e
      | Inr data \<Rightarrow>
          if data = [] then c
          else
            (case serve env (c\<lparr>buffer := buffer c @ data\<rparr>) of
               (go_on, c') \<Rightarrow> if go_on then handle_client env rx c' else c'))"

section \<open>\<^verbatim>\<open>client_2.7.py\<close>\<close>

text \<open>
  The reading loop of \<^verbatim>\<open>send_command\<close>: reads are decoded and appended until the
  buffer holds the marker or a read is empty. The result is the buffer, or the exception
  raised, and the reads left.
\<close>

fun read_response :: "bytes list \<Rightarrow> string \<Rightarrow> (exn + string) \<times> bytes list" where
  "read_response [] buf = (Inr buf, [])"
| "read_response (raw # rx) buf =
     (if str_contains MESSAGE_END buf then (Inr buf, raw # rx)
      else
        (case decode_utf8 raw of
           Inl e \<Rightarrow> (Inl e, rx)
         | Inr data \<Rightarrow> if data = [] then (Inr buf, rx) else read_response rx (buf @ data)))"

definition pydict_of :: "json \<Rightarrow> pydict" where
  "pydict_of x = (case x of JDict d \<Rightarrow> map (\<lambda>kv. (fst kv, PJ (snd kv))) d | _ \<Rightarrow> [])"

text \<open>
  \<^verbatim>\<open>receive_binary\<close> with the size as decoded: the comparison with a length raises
  \<^verbatim>\<open>TypeError\<close> for a value that is not a number.
\<close>

definition receive_binary_json :: "bytes list \<Rightarrow> json \<Rightarrow> exn + bytes \<times> bytes list" where
  "receive_binary_json rx sz =
     (case sz of
        JInt n \<Rightarrow> Inr (receive_binary rx n)
      | JBool b \<Rightarrow> Inr (receive_binary rx (if b then 1 else 0))
      | _ \<Rightarrow> Inl TypeError)"

text \<open>
  \<^verbatim>\<open>FileOperationsClient.send_command(command, params)\<close> on a socket with the reads
  \<open>rx\<close>: the response, the reads left and what was sent.
\<close>

definition send_command ::
  "bool \<Rightarrow> bytes list \<Rightarrow> bytes list \<Rightarrow> json \<Rightarrow> json \<Rightarrow> pydict \<times> bytes list \<times> bytes list" where
  "send_command connected rx tx0 command params =
     (if \<not> connected then (error_result ''Not connected to server'', rx, tx0)
      else
        (let tx1 = snd (send tx0 (encode_utf8 (create_request command params)))
         in case read_response rx [] of
              (Inl e, rx1) \<Rightarrow> (error_result (exn_str e), rx1, tx1)
            | (Inr buf, rx1) \<Rightarrow>
                (case parse_message buf of
                   Inl e \<Rightarrow> (error_result (exn_str e), rx1, tx1)
                 | Inr response \<Rightarrow>
                     (case py_get response ''data'' (JDict []) of
                        Inl e \<Rightarrow> (error_result (exn_str e), rx1, tx1)
                      | Inr data \<Rightarrow>
                          (case py_get data ''size'' JNull of
                             Inl e \<Rightarrow> (error_result (exn_str e), rx1, tx1)
                           | Inr sz \<Rightarrow>
                               if truthy sz then
                                 (case receive_binary_json rx1 sz of
                                    Inl e \<Rightarrow> (error_result (exn_str e), rx1, tx1)
                                  | Inr (binary_data, rx2) \<Rightarrow>
                                      (dict_set (pydict_of response) ''binary'' (PB binary_data),
                                       rx2, tx1))
                               else (pydict_of response, rx1, tx1))))))"

section \<open>A machine for the examples\<close>

text \<open>
  One directory \<^verbatim>\<open>docs\<close> with four entries and one file \<^verbatim>\<open>screen.jpg\<close> of four bytes
  (the first and last two bytes of a JPEG image); every other call succeeds without effect.
\<close>

definition demo_os :: "unit os" where
  "demo_os =
     \<lparr>os_path_exists = (\<lambda>w p. Inr (p = JStr ''docs'' \<or> p = JStr ''screen.jpg'')),
      os_listdir = (\<lambda>w d. if d = ''docs'' then [''a.txt'', ''README'', ''.hidden'', ''b.py''] else []),
      glob_dirs = (\<lambda>w d. []),
      os_remove = (\<lambda>w p. (None, w)),
      shutil_copy = (\<lambda>w a b. (None, w)),
      subprocess_Popen = (\<lambda>w p. (None, w)),
      screenshot_save = (\<lambda>w p. (None, w)),
      open_read = (\<lambda>w p. if p = JStr ''screen.jpg''
                           then Inr [CHR 0xFF, CHR 0xD8, CHR 0xFF, CHR 0xD9]
                           else Inl (OSError ''[Errno 2] No such file or directory''))\<rparr>"

section \<open>Notions used in the proofs\<close>

text \<open>What may follow a numeral: nothing, or a character that neither continues the digits nor starts a fraction or an exponent.\<close>

definition num_end :: "string \<Rightarrow> bool" where
  "num_end r = (case r of [] \<Rightarrow> True | c # _ \<Rightarrow> c = CHR '','' \<or> c = CHR '']'' \<or> c = CHR ''}'')"

text \<open>The characters a written value can start with.\<close>

definition value_start :: "char \<Rightarrow> bool" where
  "value_start c =
     (c = CHR 0x22 \<or> c = CHR ''{'' \<or> c = CHR ''['' \<or> c = CHR ''n'' \<or> c = CHR ''t''
      \<or> c = CHR ''f'' \<or> c = CHR ''-'' \<or> is_digit c)"

text \<open>What follows the first item of a list, and the first member of a dictionary, as written.\<close>

fun items_tail :: "json list \<Rightarrow> string" where
  "items_tail [] = '']''"
| "items_tail (x # xs) = '', '' @ dumps x @ items_tail xs"

fun members_tail :: "(string \<times> json) list \<Rightarrow> string" where
  "members_tail [] = ''}''"
| "members_tail (p # ps) =
     '', '' @ encode_basestring_ascii (fst p) @ '': '' @ dumps (snd p) @ members_tail ps"

text \<open>A result has the two keys every caller reads.\<close>

definition well_formed_result :: "pydict \<Rightarrow> bool" where
  "well_formed_result r = (map_of r ''status'' \<noteq> None \<and> map_of r ''message'' \<noteq> None)"

section \<open>The decoder reads what the encoder writes\<close>

subsection \<open>Numbers\<close>

lemma digit_char_lt10:
  assumes "d < 10"
  shows "is_digit (digit_char d)" and "digit_val (digit_char d) = d"
proof -
  from assms have "d \<in> {0,1,2,3,4,5,6,7,8,9}" by auto
  then show "is_digit (digit_char d)" and "digit_val (digit_char d) = d"
    by (auto simp: digit_char_def is_digit_def digit_val_def)
qed

lemma hex_val_digit_char:
  assumes "k < 16"
  shows "hex_val (digit_char k) = Some k"
proof -
  from assms have "k = 0 \<or> k = 1 \<or> k = 2 \<or> k = 3 \<or> k = 4 \<or> k = 5 \<or> k = 6 \<or> k = 7
      \<or> k = 8 \<or> k = 9 \<or> k = 10 \<or> k = 11 \<or> k = 12 \<or> k = 13 \<or> k = 14 \<or> k = 15"
    by arith
  then show ?thesis by (auto simp: digit_char_def hex_val_def)
qed

lemma digits_of_nat_digits: "list_all is_digit (digits_of_nat n)"
proof (induction n rule: digits_of_nat.induct)
  case (1 n)
  show ?case
  proof (cases "n < 10")
    case True
    then show ?thesis by (subst digits_of_nat.simps) (simp add: digit_char_lt10)
  next
    case False
    with 1 show ?thesis by (subst digits_of_nat.simps) (simp add: digit_char_lt10)
  qed
qed

lemma nat_of_digits_snoc: "nat_of_digits (ds @ [c]) = 10 * nat_of_digits ds + digit_val c"
  by (simp add: nat_of_digits_def)

lemma nat_of_digits_of_nat: "nat_of_digits (digits_of_nat n) = n"
proof (induction n rule: digits_of_nat.induct)
  case (1 n)
  show ?case
  proof (cases "n < 10")
    case True
    then show ?thesis
      by (subst digits_of_nat.simps) (simp add: nat_of_digits_def digit_char_lt10)
  next
    case False
    with 1 show ?thesis
      by (subst digits_of_nat.simps) (simp add: nat_of_digits_snoc digit_char_lt10)
  qed
qed

lemma digits_of_nat_hd:
  "\<exists>c cs. digits_of_nat n = c # cs \<and> is_digit c \<and> (0 < n \<longrightarrow> c \<noteq> CHR ''0'')"
proof (induction n rule: digits_of_nat.induct)
  case (1 n)
  show ?case
  proof (cases "n < 10")
    case True
    then have "n \<in> {0,1,2,3,4,5,6,7,8,9}" by auto
    then show ?thesis
      by (subst digits_of_nat.simps) (auto simp: digit_char_def is_digit_def)
  next
    case False
    then have "0 < n div 10" by simp
    with 1 False obtain c cs where "digits_of_nat (n div 10) = c # cs" "is_digit c" "c \<noteq> CHR ''0''"
      by blast
    with False show ?thesis by (subst digits_of_nat.simps) simp
  qed
qed

lemma digits_of_nat_0: "digits_of_nat 0 = ''0''"
  by (subst digits_of_nat.simps) (simp add: digit_char_def)

lemma num_end_float: "num_end r \<Longrightarrow> \<not> is_float_tail r"
  by (auto simp: num_end_def is_float_tail_def split: list.splits)

lemma num_end_takeWhile:
  assumes "num_end r" "list_all is_digit ds"
  shows "takeWhile is_digit (ds @ r) = ds" "dropWhile is_digit (ds @ r) = r"
proof -
  have nd: "r = [] \<or> \<not> is_digit (hd r)"
    using assms(1) by (auto simp: num_end_def is_digit_def split: list.splits)
  from assms(2) have all: "\<forall>x\<in>set ds. is_digit x" by (simp add: list_all_iff)
  show "takeWhile is_digit (ds @ r) = ds"
    using nd all by (cases r) (simp_all add: takeWhile_append2 takeWhile_eq_all_conv[THEN iffD2])
  show "dropWhile is_digit (ds @ r) = r"
    using nd all by (cases r) (simp_all add: dropWhile_append2)
qed

lemma match_number_nat:
  assumes "num_end r"
  shows "match_number (digits_of_nat n @ r) = Some (JInt (int n), r)"
proof -
  obtain c cs where d: "digits_of_nat n = c # cs" "is_digit c" "0 < n \<longrightarrow> c \<noteq> CHR ''0''"
    using digits_of_nat_hd by blast
  have nm: "c \<noteq> CHR ''-''" using d(2) by (auto simp: is_digit_def)
  show ?thesis
  proof (cases "n = 0")
    case True
    then show ?thesis
      using assms
      by (simp add: digits_of_nat_0 match_number_def is_digit_def num_end_float
            nat_of_digits_def digit_val_def)
  next
    case False
    then have c0: "c \<noteq> CHR ''0''" using d(3) by simp
    have tw: "takeWhile is_digit ((c # cs) @ r) = c # cs" "dropWhile is_digit ((c # cs) @ r) = r"
      using num_end_takeWhile [OF assms digits_of_nat_digits [of n]] d(1) by simp_all
    have v: "nat_of_digits (c # cs) = n" using nat_of_digits_of_nat [of n] d(1) by simp
    show ?thesis
      unfolding d(1) using nm c0 d(2) tw v assms
      by (simp add: match_number_def Let_def num_end_float)
  qed
qed

lemma match_number_int:
  assumes "num_end r"
  shows "match_number (int_repr i @ r) = Some (JInt i, r)"
proof (cases "i < 0")
  case False
  then show ?thesis using match_number_nat [OF assms, of "nat i"] by (simp add: int_repr_def)
next
  case True
  let ?n = "nat (- i)"
  obtain c cs where d: "digits_of_nat ?n = c # cs" "is_digit c" "0 < ?n \<longrightarrow> c \<noteq> CHR ''0''"
    using digits_of_nat_hd by blast
  from True have pos: "0 < ?n" by simp
  then have c0: "c \<noteq> CHR ''0''" using d(3) by simp
  have tw: "takeWhile is_digit ((c # cs) @ r) = c # cs" "dropWhile is_digit ((c # cs) @ r) = r"
    using num_end_takeWhile [OF assms digits_of_nat_digits [of ?n]] d(1) by simp_all
  have v: "nat_of_digits (c # cs) = ?n" using nat_of_digits_of_nat [of ?n] d(1) by simp
  show ?thesis
    using True c0 d(1,2) tw v assms
    by (simp add: int_repr_def match_number_def Let_def num_end_float)
qed

subsection \<open>Strings\<close>

lemma decode_uXXXX_escape:
  "decode_uXXXX (CHR ''0'' # CHR ''0'' # digit_char (of_char c div 16) # digit_char (of_char c mod 16) # X)
     = Some (of_char c)"
proof -
  have lt: "(of_char c :: nat) < 256" by simp
  then have a: "(of_char c :: nat) div 16 < 16" by (simp add: less_mult_imp_div_less)
  have b: "(of_char c :: nat) mod 16 < 16" by simp
  have z: "hex_val (CHR ''0'') = Some 0" by (simp add: hex_val_def)
  show ?thesis
    by (simp add: decode_uXXXX_def z hex_val_digit_char [OF a] hex_val_digit_char [OF b])
qed

lemma scanstring_escape_step:
  "scanstring (json_escape c @ X) = map_option (\<lambda>(t, r). (c # t, r)) (scanstring X)"
proof -
  consider (special) "c \<in> {CHR 0x22, CHR 0x5C, CHR 0x0A, CHR 0x0D, CHR 0x09, CHR 0x08, CHR 0x0C}"
    | (uni) "c \<notin> {CHR 0x22, CHR 0x5C, CHR 0x0A, CHR 0x0D, CHR 0x09, CHR 0x08, CHR 0x0C}"
        "(of_char c :: nat) < 32 \<or> 126 < (of_char c :: nat)"
    | (plain) "c \<notin> {CHR 0x22, CHR 0x5C, CHR 0x0A, CHR 0x0D, CHR 0x09, CHR 0x08, CHR 0x0C}"
        "\<not> ((of_char c :: nat) < 32 \<or> 126 < (of_char c :: nat))"
    by blast
  then show ?thesis
  proof cases
    case special
    then show ?thesis by (auto simp: json_escape_def backslash_def)
  next
    case uni
    have lt: "(of_char c :: nat) < 256" by simp
    from uni show ?thesis
      by (simp add: json_escape_def decode_uXXXX_escape lt)
  next
    case plain
    then show ?thesis by (simp add: json_escape_def)
  qed
qed

lemma scanstring_escape:
  "scanstring (concat (map json_escape s) @ CHR 0x22 # r) = Some (s, r)"
  by (induction s) (simp_all add: scanstring_escape_step)

lemma scanstring_encoded:
  "scanstring (tl (encode_basestring_ascii s) @ r) = Some (s, r)"
  using scanstring_escape [of s r] by (simp add: encode_basestring_ascii_def)

subsection \<open>Values\<close>

lemma skip_ws_Cons: "\<not> is_ws c \<Longrightarrow> skip_ws (c # cs) = c # cs"
  by (simp add: skip_ws_def)

lemma skip_ws_space: "skip_ws (CHR '' '' # s) = skip_ws s"
  by (simp add: skip_ws_def is_ws_def)

lemma value_start_not_ws: "value_start c \<Longrightarrow> \<not> is_ws c"
  by (auto simp: value_start_def is_ws_def is_digit_def)

lemma value_start_not_close: "value_start c \<Longrightarrow> c \<noteq> CHR '']''"
  by (auto simp: value_start_def is_digit_def)

lemma int_repr_hd: "\<exists>c cs. int_repr i = c # cs \<and> (c = CHR ''-'' \<or> is_digit c)"
  using digits_of_nat_hd [of "nat i"] by (auto simp: int_repr_def)

lemma encode_hd: "encode_basestring_ascii s = CHR 0x22 # tl (encode_basestring_ascii s)"
  by (simp add: encode_basestring_ascii_def)

lemma dumps_hd: "\<exists>c cs. dumps v = c # cs \<and> value_start c"
proof (cases v)
  case (JInt i)
  then show ?thesis using int_repr_hd [of i] by (auto simp: value_start_def)
next
  case (JStr s)
  then show ?thesis using encode_hd [of s] by (auto simp: value_start_def)
qed (auto simp: value_start_def)

lemma scan_once_int:
  assumes "num_end r"
  shows "scan_once (int_repr i @ r) = Some (JInt i, r)"
proof -
  obtain c cs where c: "int_repr i = c # cs" "c = CHR ''-'' \<or> is_digit c"
    using int_repr_hd by blast
  have m: "match_number ((c # cs) @ r) = Some (JInt i, r)"
    using match_number_int [OF assms, of i] c(1) by simp
  from c(2) have ne: "c \<noteq> CHR 0x22" "c \<noteq> CHR ''{''" "c \<noteq> CHR ''[''" "c \<noteq> CHR ''n''"
      "c \<noteq> CHR ''t''" "c \<noteq> CHR ''f''"
    by (auto simp: is_digit_def)
  show ?thesis
    unfolding c(1) using ne m by (subst scan_once.simps) simp
qed

lemma scan_once_str: "scan_once (encode_basestring_ascii s @ r) = Some (JStr s, r)"
proof -
  have "scan_once (CHR 0x22 # tl (encode_basestring_ascii s) @ r) = Some (JStr s, r)"
    by (subst scan_once.simps) (simp add: scanstring_encoded)
  then show ?thesis using encode_hd [of s] by (metis append_Cons)
qed

lemma join_items: "str_join '', '' (map dumps (x # xs)) @ '']'' = dumps x @ items_tail xs"
  by (induction xs arbitrary: x) simp_all

lemma join_members:
  "str_join '', '' (map (\<lambda>kv. encode_basestring_ascii (fst kv) @ '': '' @ dumps (snd kv)) (p # ps)) @ ''}''
     = encode_basestring_ascii (fst p) @ '': '' @ dumps (snd p) @ members_tail ps"
  by (induction ps arbitrary: p) simp_all

lemma num_end_items: "num_end (items_tail xs @ r)"
  by (cases xs) (simp_all add: num_end_def)

lemma num_end_members: "num_end (members_tail ps @ r)"
  by (cases ps) (simp_all add: num_end_def)

lemma JSONArray_items:
  assumes "\<And>x r. x \<in> set (y # ys) \<Longrightarrow> num_end r \<Longrightarrow> scan_once (dumps x @ r) = Some (x, r)"
  shows "JSONArray (dumps y @ items_tail ys @ r) = Some (y # ys, r)"
  using assms
proof (induction ys arbitrary: y)
  case Nil
  have "scan_once (dumps y @ CHR '']'' # r) = Some (y, CHR '']'' # r)"
    using Nil [of y "CHR '']'' # r"] by (simp add: num_end_def)
  then show ?case
    by (subst JSONArray.simps) (simp add: skip_ws_Cons is_ws_def)
next
  case (Cons z zs)
  let ?rest = "dumps z @ items_tail zs @ r"
  obtain c cs where z: "dumps z = c # cs" "value_start c" using dumps_hd by blast
  have first: "scan_once (dumps y @ CHR '','' # CHR '' '' # ?rest) = Some (y, CHR '','' # CHR '' '' # ?rest)"
    using Cons.prems [of y "CHR '','' # CHR '' '' # ?rest"] by (simp add: num_end_def)
  have ws: "skip_ws (CHR '' '' # ?rest) = ?rest"
    using z by (simp add: skip_ws_space skip_ws_Cons value_start_not_ws)
  have rec: "JSONArray ?rest = Some (z # zs, r)"
    by (rule Cons.IH) (simp add: Cons.prems)
  show ?case
    using first ws rec
    by (subst JSONArray.simps) (simp add: skip_ws_Cons is_ws_def)
qed

lemma JSONObject_members:
  assumes "\<And>k v r. (k, v) \<in> set (p # ps) \<Longrightarrow> num_end r \<Longrightarrow> scan_once (dumps v @ r) = Some (v, r)"
  shows "JSONObject (tl (encode_basestring_ascii (fst p)) @ '': '' @ dumps (snd p) @ members_tail ps @ r)
           = Some (p # ps, r)"
  using assms
proof (induction ps arbitrary: p)
  case Nil
  obtain k v where p: "p = (k, v)" by (cases p)
  obtain c cs where v: "dumps v = c # cs" "value_start c" using dumps_hd by blast
  have key: "scanstring (tl (encode_basestring_ascii k) @ '': '' @ dumps v @ ''}'' @ r)
      = Some (k, '': '' @ dumps v @ ''}'' @ r)"
    by (rule scanstring_encoded)
  have ws: "skip_ws (CHR '' '' # dumps v @ ''}'' @ r) = dumps v @ ''}'' @ r"
    using v by (simp add: skip_ws_space skip_ws_Cons value_start_not_ws)
  have val: "scan_once (dumps v @ ''}'' @ r) = Some (v, ''}'' @ r)"
    using Nil [of k v "''}'' @ r"] p by (simp add: num_end_def)
  show ?case
    unfolding p using key ws val
    by (subst JSONObject.simps) (simp add: skip_ws_Cons is_ws_def)
next
  case (Cons q qs)
  obtain k v where p: "p = (k, v)" by (cases p)
  obtain c cs where v: "dumps v = c # cs" "value_start c" using dumps_hd by blast
  let ?after = "tl (encode_basestring_ascii (fst q)) @ '': '' @ dumps (snd q) @ members_tail qs @ r"
  let ?tail = "CHR '','' # CHR '' '' # CHR 0x22 # ?after"
  have mt: "members_tail (q # qs) @ r = ?tail"
    by (simp add: encode_basestring_ascii_def)
  have key: "scanstring (tl (encode_basestring_ascii k) @ '': '' @ dumps v @ ?tail)
      = Some (k, '': '' @ dumps v @ ?tail)"
    by (rule scanstring_encoded)
  have ws: "skip_ws (CHR '' '' # dumps v @ ?tail) = dumps v @ ?tail"
    using v by (simp add: skip_ws_space skip_ws_Cons value_start_not_ws)
  have val: "scan_once (dumps v @ ?tail) = Some (v, ?tail)"
    using Cons.prems [of k v ?tail] p by (simp add: num_end_def)
  have ws2: "skip_ws (CHR '' '' # CHR 0x22 # ?after) = CHR 0x22 # ?after"
    by (simp add: skip_ws_space skip_ws_Cons is_ws_def)
  have rec: "JSONObject ?after = Some (q # qs, r)"
  proof (rule Cons.IH)
    fix k' v' r'
    assume "(k', v') \<in> set (q # qs)" and "num_end r'"
    then show "scan_once (dumps v' @ r') = Some (v', r')"
      using Cons.prems [of k' v' r'] by simp
  qed
  have main: "JSONObject (tl (encode_basestring_ascii k) @ '': '' @ dumps v @ ?tail) = Some ((k, v) # q # qs, r)"
    using key ws val ws2 rec
    by (subst JSONObject.simps) (simp add: skip_ws_Cons is_ws_def)
  show ?case unfolding p fst_conv snd_conv mt by (rule main)
qed

lemma dict_set_append:
  "k \<notin> fst ` set d \<Longrightarrow> dict_set d k v = d @ [(k, v)]"
  by (induction d) auto

lemma dict_of_pairs_distinct:
  assumes "distinct (map fst ps)"
  shows "dict_of_pairs ps = ps"
proof -
  have "distinct (map fst (acc @ ps)) \<Longrightarrow>
        foldl (\<lambda>d kv. dict_set d (fst kv) (snd kv)) acc ps = acc @ ps" for acc
  proof (induction ps arbitrary: acc)
    case Nil
    then show ?case by simp
  next
    case (Cons p ps)
    from Cons.prems have "fst p \<notin> fst ` set acc" by auto
    then have "dict_set acc (fst p) (snd p) = acc @ [p]" by (simp add: dict_set_append)
    moreover from Cons.prems have "distinct (map fst ((acc @ [p]) @ ps))" by simp
    ultimately show ?case using Cons.IH [of "acc @ [p]"] by simp
  qed
  from this [of "[]"] assms show ?thesis by (simp add: dict_of_pairs_def)
qed

lemma scan_once_dumps:
  "wf_json v \<Longrightarrow> num_end r \<Longrightarrow> scan_once (dumps v @ r) = Some (v, r)"
proof (induction v arbitrary: r)
  case JNull
  show ?case by (subst scan_once.simps) simp
next
  case (JBool b)
  show ?case by (subst scan_once.simps) simp
next
  case (JInt i)
  then show ?case by (simp add: scan_once_int)
next
  case (JStr s)
  show ?case by (simp add: scan_once_str)
next
  case (JList xs)
  show ?case
  proof (cases xs)
    case Nil
    then show ?thesis by (subst scan_once.simps) (simp add: skip_ws_Cons is_ws_def)
  next
    case (Cons y ys)
    have el: "\<And>x r. x \<in> set (y # ys) \<Longrightarrow> num_end r \<Longrightarrow> scan_once (dumps x @ r) = Some (x, r)"
    proof -
      fix x r
      assume "x \<in> set (y # ys)" and ne: "num_end r"
      then have "x \<in> set xs" using Cons by simp
      moreover from this have "wf_json x" using JList.prems(1) by (simp add: list_all_iff)
      ultimately show "scan_once (dumps x @ r) = Some (x, r)"
        using JList.IH ne by blast
    qed
    obtain c cs where y: "dumps y = c # cs" "value_start c" using dumps_hd by blast
    have "JSONArray (dumps y @ items_tail ys @ r) = Some (y # ys, r)"
    proof (rule JSONArray_items)
      fix x r'
      assume "x \<in> set (y # ys)" and "num_end r'"
      then show "scan_once (dumps x @ r') = Some (x, r')" by (rule el)
    qed
    then have arr: "JSONArray (c # cs @ items_tail ys @ r) = Some (y # ys, r)"
      using y(1) by simp
    have "dumps (JList xs) @ r = CHR ''['' # (dumps y @ items_tail ys) @ r"
      using join_items [of y ys] Cons by (simp del: str_join.simps)
    then have d: "dumps (JList xs) @ r = CHR ''['' # c # cs @ items_tail ys @ r"
      using y(1) by simp
    show ?thesis
      unfolding d using arr y(2) Cons
      by (subst scan_once.simps)
         (simp add: skip_ws_Cons value_start_not_ws value_start_not_close)
  qed
next
  case (JDict kvs)
  show ?case
  proof (cases kvs)
    case Nil
    then show ?thesis by (subst scan_once.simps) (simp add: skip_ws_Cons is_ws_def)
  next
    case (Cons p ps)
    have el: "\<And>k v r. (k, v) \<in> set (p # ps) \<Longrightarrow> num_end r \<Longrightarrow> scan_once (dumps v @ r) = Some (v, r)"
    proof -
      fix k v r
      assume in_set: "(k, v) \<in> set (p # ps)" and ne: "num_end r"
      then have "wf_json v" using JDict.prems(1) Cons by (auto simp: list_all_iff)
      moreover have "v \<in> Basic_BNFs.snds (k, v)" by simp
      ultimately show "scan_once (dumps v @ r) = Some (v, r)"
        using JDict.IH in_set ne Cons by blast
    qed
    let ?after = "tl (encode_basestring_ascii (fst p)) @ '': '' @ dumps (snd p) @ members_tail ps @ r"
    have obj: "JSONObject ?after = Some (p # ps, r)"
    proof (rule JSONObject_members)
      fix k v r'
      assume "(k, v) \<in> set (p # ps)" and "num_end r'"
      then show "scan_once (dumps v @ r') = Some (v, r')" by (rule el)
    qed
    have e: "encode_basestring_ascii (fst p) @ X = CHR 0x22 # tl (encode_basestring_ascii (fst p)) @ X" for X
      by (simp add: encode_basestring_ascii_def)
    have "dumps (JDict kvs) @ r
        = CHR ''{'' # (encode_basestring_ascii (fst p) @ '': '' @ dumps (snd p) @ members_tail ps) @ r"
      using join_members [of p ps] Cons by (simp del: str_join.simps)
    then have d: "dumps (JDict kvs) @ r = CHR ''{'' # CHR 0x22 # ?after"
      using e [of "'': '' @ dumps (snd p) @ members_tail ps @ r"] by simp
    have dist: "dict_of_pairs (p # ps) = p # ps"
      using JDict.prems(1) Cons by (simp add: dict_of_pairs_distinct)
    show ?thesis
      unfolding d using obj dist Cons
      by (subst scan_once.simps) (simp add: skip_ws_Cons is_ws_def)
  qed
qed

lemma loads_dumps: "wf_json v \<Longrightarrow> loads (dumps v) = Inr v"
proof -
  assume wf: "wf_json v"
  obtain c cs where v: "dumps v = c # cs" "value_start c" using dumps_hd by blast
  have "scan_once (dumps v @ []) = Some (v, [])"
    by (rule scan_once_dumps [OF wf]) (simp add: num_end_def)
  then show ?thesis
    using v by (simp add: loads_def skip_ws_Cons value_start_not_ws skip_ws_def)
qed

subsection \<open>Removing the marker\<close>

lemma startswith_take: "startswith s p \<longleftrightarrow> take (length p) s = p"
  by (induction s p rule: startswith.induct) auto

lemma marker_no_border:
  assumes "startswith (s @ ''<END>'') ''<END>''" and "s \<noteq> []"
  shows "startswith s ''<END>''"
proof (cases "5 \<le> length s")
  case True
  with assms(1) show ?thesis by (simp add: startswith_take)
next
  case False
  moreover have "0 < length s" using assms(2) by simp
  ultimately have "length s = 1 \<or> length s = 2 \<or> length s = 3 \<or> length s = 4"
    by arith
  then have "(\<exists>a. s = [a]) \<or> (\<exists>a b. s = [a, b]) \<or> (\<exists>a b c. s = [a, b, c])
      \<or> (\<exists>a b c d. s = [a, b, c, d])"
    by (auto simp: length_Suc_conv eval_nat_numeral)
  then show ?thesis using assms(1) by auto
qed

lemma str_replace_Nil: "old \<noteq> [] \<Longrightarrow> str_replace old new [] = []"
  by (subst str_replace.simps) simp


lemma str_replace_final_marker:
  "\<not> str_contains MESSAGE_END s \<Longrightarrow> str_replace MESSAGE_END [] (s @ MESSAGE_END) = s"
proof (induction s)
  case Nil
  have "str_replace MESSAGE_END [] MESSAGE_END = str_replace MESSAGE_END [] []"
    by (subst str_replace.simps) (simp add: MESSAGE_END_def)
  then show ?case by (simp add: str_replace_Nil MESSAGE_END_def)
next
  case (Cons c cs)
  then have ns: "\<not> startswith (c # cs) MESSAGE_END"
    and ih: "str_replace MESSAGE_END [] (cs @ MESSAGE_END) = cs"
    by simp_all
  have "\<not> startswith ((c # cs) @ MESSAGE_END) MESSAGE_END"
    using ns marker_no_border [of "c # cs"] unfolding MESSAGE_END_def by blast
  then show ?case
    using ih by (subst str_replace.simps) (auto simp: MESSAGE_END_def)
qed

section \<open>Listing a directory\<close>

lemma fnmatch_star: "fnmatch s ''*''"
  by (induction s) simp_all

lemma fnmatch_star_dot_star: "fnmatch n ''*.*'' \<longleftrightarrow> CHR ''.'' \<in> set n"
  by (induction n) (auto simp: fnmatch_star)

lemma glob1_star_dot_star:
  "glob1 env w d ''*.*'' = filter (\<lambda>n. CHR ''.'' \<in> set n \<and> \<not> ishidden n) (os_listdir env w d)"
  by (simp add: glob1_def ishidden_def fnmatch_star_dot_star conj_commute)

lemma split_tail_pattern:
  assumes "x = [] \<or> last x = CHR ''/''"
  shows "snd (os_path_split (x @ ''*.*'')) = ''*.*''"
proof (cases "x = []")
  case True
  then show ?thesis by (simp add: os_path_split_def)
next
  case False
  with assms have "last x = CHR ''/''" by simp
  with False obtain y where x: "x = y @ ''/''"
    by (metis append_butlast_last_id)
  show ?thesis unfolding x by (simp add: os_path_split_def Let_def)
qed

lemma posix_join_pattern:
  "\<exists>x. posix_join p ''*.*'' = x @ ''*.*'' \<and> (x = [] \<or> last x = CHR ''/'')"
proof (cases "p = [] \<or> last p = CHR ''/''")
  case True
  then have "posix_join p ''*.*'' = p @ ''*.*''" by (simp add: posix_join_def)
  with True show ?thesis by blast
next
  case False
  then have "posix_join p ''*.*'' = (p @ ''/'') @ ''*.*''" by (simp add: posix_join_def)
  moreover have "last (p @ ''/'') = CHR ''/''" by simp
  ultimately show ?thesis by blast
qed

lemma basename_join_pattern: "snd (os_path_split (posix_join p ''*.*'')) = ''*.*''"
  using posix_join_pattern [of p] split_tail_pattern by metis

section \<open>Results of the commands\<close>

lemma wfr_error [simp]: "well_formed_result (error_result m @ extra)"
  by (simp add: well_formed_result_def error_result_def)

lemma wfr_success [simp]: "well_formed_result (success_result m @ extra)"
  by (simp add: well_formed_result_def success_result_def)

lemma wfr_error' [simp]: "well_formed_result (error_result m)"
  using wfr_error [of m "[]"] by simp

lemma wfr_success' [simp]: "well_formed_result (success_result m)"
  using wfr_success [of m "[]"] by simp

lemma cmd_dir_wfr: "well_formed_result (cmd_dir env w p)"
  by (simp add: cmd_dir_def Let_def split: sum.splits)

lemma cmd_delete_wfr: "well_formed_result (fst (cmd_delete env w p))"
  by (simp add: cmd_delete_def split: sum.splits prod.splits option.splits)

lemma cmd_copy_wfr: "well_formed_result (fst (cmd_copy env w s d))"
  by (simp add: cmd_copy_def split: sum.splits prod.splits option.splits)

lemma cmd_execute_wfr: "well_formed_result (fst (cmd_execute env w p))"
  by (simp add: cmd_execute_def split: sum.splits prod.splits option.splits)

lemma cmd_screenshot_wfr: "well_formed_result (fst (cmd_screenshot env w p))"
  by (simp add: cmd_screenshot_def split: sum.splits prod.splits option.splits)

lemma cmd_send_photo_wfr: "well_formed_result (cmd_send_photo env w p)"
  by (simp add: cmd_send_photo_def split: sum.splits)

lemma ex_pair:
  "(\<exists>result. (\<exists>w'. x = (result, w')) \<and> P result) \<longleftrightarrow> P (fst x)"
  by (cases x) simp

lemma execute_command_returns:
  "\<exists>result w'. execute_command env w command (JDict params) = Inr (result, w')
      \<and> well_formed_result result"
proof -
  have get: "\<And>k d. py_get (JDict params) k d = Inr (case map_of params k of None \<Rightarrow> d | Some v \<Rightarrow> v)"
    by (simp add: py_get_def split: option.splits)
  show ?thesis
    unfolding execute_command_def get
    by (simp add: ex_pair cmd_dir_wfr cmd_send_photo_wfr cmd_delete_wfr cmd_copy_wfr
          cmd_execute_wfr cmd_screenshot_wfr)
qed

section \<open>The wire codec\<close>

text \<open>
  A request or a response whose encoding holds no marker is decoded as it was encoded.
\<close>

lemma create_request_roundtrip:
  assumes "wf_json command" and "wf_json params"
    and "\<not> str_contains MESSAGE_END
            (dumps (JDict [(''type'', JStr ''request''), (''command'', command),
                           (''params'', or_empty_dict params)]))"
  shows "parse_message (create_request command params) =
           Inr (JDict [(''type'', JStr ''request''), (''command'', command),
                       (''params'', or_empty_dict params)])"
proof -
  have "wf_json (JDict [(''type'', JStr ''request''), (''command'', command),
                        (''params'', or_empty_dict params)])"
    using assms(1,2) by (simp add: or_empty_dict_def)
  then have l: "loads (dumps (JDict [(''type'', JStr ''request''), (''command'', command),
                                    (''params'', or_empty_dict params)]))
      = Inr (JDict [(''type'', JStr ''request''), (''command'', command),
                    (''params'', or_empty_dict params)])"
    by (rule loads_dumps)
  show ?thesis
    unfolding create_request_def parse_message_def str_replace_final_marker [OF assms(3)]
    by (rule l)
qed

lemma create_response_roundtrip:
  assumes "wf_json status" and "wf_json message" and "wf_json data"
    and "\<not> str_contains MESSAGE_END
            (dumps (JDict [(''type'', JStr ''response''), (''status'', status),
                           (''message'', message), (''data'', or_empty_dict data)]))"
  shows "parse_message (create_response status message data) =
           Inr (JDict [(''type'', JStr ''response''), (''status'', status),
                       (''message'', message), (''data'', or_empty_dict data)])"
proof -
  have "wf_json (JDict [(''type'', JStr ''response''), (''status'', status),
                        (''message'', message), (''data'', or_empty_dict data)])"
    using assms(1,2,3) by (simp add: or_empty_dict_def)
  then have l: "loads (dumps (JDict [(''type'', JStr ''response''), (''status'', status),
                                    (''message'', message), (''data'', or_empty_dict data)]))
      = Inr (JDict [(''type'', JStr ''response''), (''status'', status),
                    (''message'', message), (''data'', or_empty_dict data)])"
    by (rule loads_dumps)
  show ?thesis
    unfolding create_response_def parse_message_def str_replace_final_marker [OF assms(4)]
    by (rule l)
qed

text \<open>
  C1. Decoding an encoded request gives back the command and the parameters. The source
  asserts it for one request in \<^verbatim>\<open>test_protocol_assertions\<close>. It fails for a parameter
  that holds the marker: \<^verbatim>\<open>json.dumps\<close> writes \<^verbatim>\<open><END>\<close> as it is, and
  \<^verbatim>\<open>parse_message\<close> deletes every occurrence of the marker, not only the last one. The
  path \<^verbatim>\<open>a<END>b\<close> comes back as \<^verbatim>\<open>ab\<close>.
\<close>

theorem parse_message_drops_marker_in_params:
  \<open>parse_message (create_request (JStr CMD_DIR) (JDict [(''path'', JStr ''a<END>b'')])) =
     Inr (JDict [(''type'', JStr ''request''), (''command'', JStr ''DIR''),
                 (''params'', JDict [(''path'', JStr ''ab'')])])\<close>
  by code_simp

text \<open>
  C2. An encoded message is JSON followed by the marker, and the marker does not occur
  inside the JSON. The second part fails for a string value that holds the marker: the body
  of the request below contains \<^verbatim>\<open><END>\<close> before its end.
\<close>

theorem create_request_body_contains_marker:
  \<open>create_request (JStr CMD_DIR) (JDict [(''path'', JStr ''a<END>b'')]) =
     ''{"type": "request", "command": "DIR", "params": {"path": "a<END>b"}}'' @ MESSAGE_END
   \<and> str_contains MESSAGE_END
         ''{"type": "request", "command": "DIR", "params": {"path": "a<END>b"}}''\<close>
  by code_simp




text \<open>
  C8. The key that tells a request from a response is \<^verbatim>\<open>type\<close> on the wire; an encoded
  request has no key \<^verbatim>\<open>kind\<close>.
\<close>

theorem wire_key_is_type:
  \<open>create_request (JStr CMD_DIR) JNull =
     ''{"type": "request", "command": "DIR", "params": {}}<END>''
   \<and> parse_message (create_request (JStr CMD_DIR) JNull) =
       Inr (JDict [(''type'', JStr ''request''), (''command'', JStr ''DIR''), (''params'', JDict [])])
   \<and> py_getitem (JDict [(''type'', JStr ''request''), (''command'', JStr ''DIR''),
                        (''params'', JDict [])]) ''kind'' = Inl (KeyError ''kind'')\<close>
  by code_simp

text \<open>
  C8, as the code has it. An encoded request is the object with the keys \<^verbatim>\<open>type\<close>
  (\<^verbatim>\<open>request\<close>), \<^verbatim>\<open>command\<close> and \<^verbatim>\<open>params\<close>, in this order, followed by the marker; an
  encoded response is the object with the keys \<^verbatim>\<open>type\<close> (\<^verbatim>\<open>response\<close>), \<^verbatim>\<open>status\<close>,
  \<^verbatim>\<open>message\<close> and \<^verbatim>\<open>data\<close>, followed by the marker. The values are the arguments as
  \<^verbatim>\<open>json.dumps\<close> writes them, with \<^verbatim>\<open>{}\<close> for missing or empty parameters and data.
\<close>

theorem wire_format:
  \<open>create_request command params =
     ''{"type": "request", "command": '' @ dumps command
       @ '', "params": '' @ dumps (or_empty_dict params) @ ''}<END>''
   \<and> create_response status message data =
       ''{"type": "response", "status": '' @ dumps status
         @ '', "message": '' @ dumps message
         @ '', "data": '' @ dumps (or_empty_dict data) @ ''}<END>''\<close>
  by (simp add: create_request_def create_response_def encode_basestring_ascii_def
        json_escape_def MESSAGE_END_def)

section \<open>Binary transfer\<close>

text \<open>
  When the reads bring no more than the bytes asked for, \<^verbatim>\<open>receive_binary\<close> returns all
  of them, in order, and nothing else; \<^verbatim>\<open>send_binary\<close> passes the data to the socket once.
\<close>

lemma receive_binary_loop_all:
  assumes "list_all (\<lambda>chunk. chunk \<noteq> []) rx"
    and "int (length acc) + int (length (concat rx)) \<le> n"
  shows "receive_binary_loop rx n acc = (acc @ concat rx, [])"
  using assms
proof (induction rx arbitrary: acc)
  case Nil
  then show ?case by simp
next
  case (Cons chunk rx)
  from Cons.prems have ne: "chunk \<noteq> []" and rest: "list_all (\<lambda>chunk. chunk \<noteq> []) rx" by simp_all
  from ne have pos: "0 < int (length chunk)" by simp
  have nonneg: "0 \<le> int (length (concat rx))" by simp
  have sum: "int (length acc) + (int (length chunk) + int (length (concat rx))) \<le> n"
    using Cons.prems(2) by simp
  from pos nonneg sum have less: "int (length acc) < n" by linarith
  from Cons.prems(2) have "int (length (acc @ chunk)) + int (length (concat rx)) \<le> n" by simp
  from Cons.IH [OF rest this] less ne show ?case by simp
qed

lemma receive_binary_all:
  assumes "list_all (\<lambda>chunk. chunk \<noteq> []) rx" and "int (length (concat rx)) \<le> n"
  shows "receive_binary rx n = (concat rx, [])"
  using receive_binary_loop_all [OF assms(1), of "[]" n] assms(2)
  by (simp add: receive_binary_def)

lemma send_binary_all: "send_binary tx0 data = (if data = [] then tx0 else tx0 @ [data])"
proof (cases "data = []")
  case True
  then show ?thesis by (simp add: send_binary_def send_binary_loop.simps)
next
  case False
  have "send_binary_loop (tx0 @ [data]) data (length data) = tx0 @ [data]"
    by (subst send_binary_loop.simps) simp
  with False show ?thesis
    by (simp add: send_binary_def) (subst send_binary_loop.simps, simp add: send_def)
qed

text \<open>
  C4. \<^verbatim>\<open>receive_binary\<close> returns the bytes sent, never more than \<^verbatim>\<open>size\<close>. Each read
  asks for up to 4096 bytes whatever is still missing, so a read that brings more than the
  missing bytes is kept whole: asked for 3 bytes on a socket whose next read holds 5, it
  returns 5.
\<close>

theorem receive_binary_reads_past_size:
  \<open>receive_binary [''abcde''] 3 = (''abcde'', [])
   \<and> length (fst (receive_binary [''abcde''] 3)) = 5\<close>
  by code_simp

section \<open>The server loop\<close>

text \<open>
  C3. The messages cut off the buffer do not depend on how the stream is split into reads.
  The loop cuts at most one message per read. Two requests and the start of a third arriving
  in one read give one message, and the second request stays in the buffer with the partial
  one; the same bytes arriving one at a time give both messages.
\<close>

theorem one_message_per_read:
  \<open>frames (handle_client env [''{"command": "A"}<END>{"command": "B"}<END>{"comm''] (new_conn w))
     = [''{"command": "A"}'']
   \<and> buffer (handle_client env [''{"command": "A"}<END>{"command": "B"}<END>{"comm''] (new_conn w))
     = ''{"command": "B"}<END>{"comm''
   \<and> frames (handle_client env
               (map (\<lambda>b. [b]) ''{"command": "A"}<END>{"command": "B"}<END>{"comm'') (new_conn w))
     = [''{"command": "A"}'', ''{"command": "B"}'']\<close>
  by code_simp

text \<open>
  C5. After \<^verbatim>\<open>SEND_PHOTO\<close> the client holds the bytes of the file. The server sends the
  response with the size of the file and then the bytes of the file. When both arrive in one
  read, the client decodes the bytes of the image as text with the response and returns an
  error; when they arrive in two reads it returns the file.
\<close>

theorem send_photo_needs_separate_reads:
  \<open>tx (handle_client demo_os
         [encode_utf8 (create_request (JStr CMD_SEND_PHOTO) (JDict [(''image_path'', JStr ''screen.jpg'')]))]
         (new_conn ()))
     = [''{"type": "response", "status": "success", "message": "Photo ready to send: screen.jpg", "data": {"size": 4}}<END>'',
        [CHR 0xFF, CHR 0xD8, CHR 0xFF, CHR 0xD9]]
   \<and> fst (send_command True
         [''{"type": "response", "status": "success", "message": "Photo ready to send: screen.jpg", "data": {"size": 4}}<END>''
            @ [CHR 0xFF, CHR 0xD8, CHR 0xFF, CHR 0xD9]]
         [] (JStr CMD_SEND_PHOTO) (JDict [(''image_path'', JStr ''screen.jpg'')]))
     = error_result ''UnicodeDecodeError''
   \<and> fst (send_command True
         [''{"type": "response", "status": "success", "message": "Photo ready to send: screen.jpg", "data": {"size": 4}}<END>'',
          [CHR 0xFF, CHR 0xD8, CHR 0xFF, CHR 0xD9]]
         [] (JStr CMD_SEND_PHOTO) (JDict [(''image_path'', JStr ''screen.jpg'')]))
     = [(''type'', PJ (JStr ''response'')), (''status'', PJ (JStr ''success'')),
        (''message'', PJ (JStr ''Photo ready to send: screen.jpg'')),
        (''data'', PJ (JDict [(''size'', JInt 4)])),
        (''binary'', PB [CHR 0xFF, CHR 0xD8, CHR 0xFF, CHR 0xD9])]\<close>
  by code_simp

text \<open>
  C6. Whenever the message cut off the buffer decodes to a request whose command is a string
  outside the seven commands, the server sends the error response \<^verbatim>\<open>Invalid command\<close> and
  nothing else: no command implementation runs, so the state of the machine is as before. The
  connection stays open: the loop goes on with the next read, with the text after the marker
  kept in the buffer, so that a later request is served.
\<close>

theorem invalid_command_keeps_connection:
  assumes "decode_utf8 raw = Inr data" and "data \<noteq> []"
    and "str_contains MESSAGE_END (buffer c @ data)"
    and "str_split1 MESSAGE_END (buffer c @ data) = [message, rest]"
    and "parse_message (message @ MESSAGE_END) = Inr request"
    and "py_getitem request ''command'' = Inr (JStr command)"
    and "command \<notin> set valid_commands"
  shows "handle_client env (raw # rx) c =
           handle_client env rx
             (c\<lparr>buffer := rest,
                frames := frames c @ [message],
                tx := tx c @ [encode_utf8 (create_response (JStr STATUS_ERROR)
                                             (JStr ''Invalid command'') JNull)]\<rparr>)"
  using assms by (simp add: serve_def validate_command_def Let_def send_text_def send_def)

theorem invalid_command_keeps_connection_witness:
  \<open>tx (handle_client demo_os
         [''{"type": "request", "command": "FAKE_COMMAND", "params": {}}<END>'',
          ''{"type": "request", "command": "EXIT", "params": {}}<END>'']
         (new_conn ()))
     = [''{"type": "response", "status": "error", "message": "Invalid command", "data": {}}<END>'',
        ''{"type": "response", "status": "success", "message": "Goodbye", "data": {}}<END>'']\<close>
proof -
  let ?raw = \<open>''{"type": "request", "command": "FAKE_COMMAND", "params": {}}<END>''\<close>
  let ?msg = \<open>''{"type": "request", "command": "FAKE_COMMAND", "params": {}}''\<close>
  let ?req = \<open>JDict [(''type'', JStr ''request''), (''command'', JStr ''FAKE_COMMAND''),
                     (''params'', JDict [])]\<close>
  let ?next = \<open>[''{"type": "request", "command": "EXIT", "params": {}}<END>'']\<close>
  have h1: "decode_utf8 ?raw = Inr ?raw" by code_simp
  have h2: "?raw \<noteq> []" by simp
  have h3: "str_contains MESSAGE_END (buffer (new_conn ()) @ ?raw)" by code_simp
  have h4: "str_split1 MESSAGE_END (buffer (new_conn ()) @ ?raw) = [?msg, []]" by code_simp
  have h5: "parse_message (?msg @ MESSAGE_END) = Inr ?req" by code_simp
  have h6: "py_getitem ?req ''command'' = Inr (JStr ''FAKE_COMMAND'')" by code_simp
  have h7: "''FAKE_COMMAND'' \<notin> set valid_commands" by code_simp
  have step: "handle_client demo_os (?raw # ?next) (new_conn ()) =
      handle_client demo_os ?next
        ((new_conn ())\<lparr>buffer := [],
           frames := frames (new_conn ()) @ [?msg],
           tx := tx (new_conn ()) @ [encode_utf8 (create_response (JStr STATUS_ERROR)
                                                   (JStr ''Invalid command'') JNull)]\<rparr>)"
    by (rule invalid_command_keeps_connection [OF h1 h2 h3 h4 h5 h6 h7])
  have run: \<open>tx (handle_client demo_os ?next
        ((new_conn ())\<lparr>buffer := [],
           frames := frames (new_conn ()) @ [?msg],
           tx := tx (new_conn ()) @ [encode_utf8 (create_response (JStr STATUS_ERROR)
                                                   (JStr ''Invalid command'') JNull)]\<rparr>))
     = [''{"type": "response", "status": "error", "message": "Invalid command", "data": {}}<END>'',
        ''{"type": "response", "status": "success", "message": "Goodbye", "data": {}}<END>'']\<close>
    by code_simp
  show ?thesis unfolding step by (rule run)
qed

section \<open>The dispatcher and the commands\<close>

text \<open>
  C9. For every command string and every dictionary of parameters \<^verbatim>\<open>execute_command\<close>
  returns a dictionary with the keys \<^verbatim>\<open>status\<close> and \<^verbatim>\<open>message\<close>. A command string
  outside the seven gives the error \<^verbatim>\<open>Unknown command\<close> and \<^verbatim>\<open>EXIT\<close> gives the success
  \<^verbatim>\<open>Goodbye\<close>; neither calls the operating system nor changes the state of the machine,
  whatever the parameters are.
\<close>

theorem execute_command_total:
  "(\<exists>result w'. execute_command env w (JStr command) (JDict params) = Inr (result, w')
       \<and> map_of result ''status'' \<noteq> None \<and> map_of result ''message'' \<noteq> None)
   \<and> (command \<notin> set valid_commands \<longrightarrow>
        execute_command env w (JStr command) p = Inr (error_result ''Unknown command'', w))
   \<and> execute_command env w (JStr CMD_EXIT) p = Inr (success_result ''Goodbye'', w)"
proof (intro conjI impI)
  show "\<exists>result w'. execute_command env w (JStr command) (JDict params) = Inr (result, w')
       \<and> map_of result ''status'' \<noteq> None \<and> map_of result ''message'' \<noteq> None"
    using execute_command_returns [of env w "JStr command" params]
    by (simp add: well_formed_result_def)
next
  assume "command \<notin> set valid_commands"
  then show "execute_command env w (JStr command) p = Inr (error_result ''Unknown command'', w)"
    by (simp add: execute_command_def valid_commands_def)
next
  show "execute_command env w (JStr CMD_EXIT) p = Inr (success_result ''Goodbye'', w)"
    by (simp add: execute_command_def CMD_EXIT_def CMD_DIR_def CMD_DELETE_def CMD_COPY_def
          CMD_EXECUTE_def CMD_SCREENSHOT_def CMD_SEND_PHOTO_def)
qed

theorem execute_command_total_witness:
  "''FAKE_COMMAND'' \<notin> set valid_commands
   \<and> execute_command demo_os () (JStr ''FAKE_COMMAND'') (JDict []) = Inr (error_result ''Unknown command'', ())"
proof -
  have h: "''FAKE_COMMAND'' \<notin> set valid_commands" by code_simp
  from execute_command_total [of demo_os "()" "''FAKE_COMMAND''" "[]" "JDict []"] h
  show ?thesis by blast
qed

text \<open>
  C10. For a path that exists \<^verbatim>\<open>cmd_dir\<close> succeeds with the matches of \<^verbatim>\<open>*.*\<close> under the
  path as \<^verbatim>\<open>files\<close> and their number as \<^verbatim>\<open>count\<close>. The matches are the names of the
  directory that contain a dot and do not start with one, joined to the directory; a name
  without a dot is left out. For a path that does not exist it returns an error with an
  empty list of files.
\<close>

theorem cmd_dir_listing:
  "(os_path_exists env w (JStr path) = Inr True \<longrightarrow>
      (let pattern = posix_join path ''*.*'';
           d = fst (os_path_split pattern);
           dotted = (\<lambda>dir. filter (\<lambda>n. CHR ''.'' \<in> set n \<and> \<not> ishidden n) (os_listdir env w dir));
           files = (if d = [] then dotted []
                    else concat (map (\<lambda>dir. map (posix_join dir) (dotted dir))
                                   (if d \<noteq> pattern \<and> has_magic d then glob_dirs env w d else [d])))
       in cmd_dir env w (JStr path) =
            success_result (''Found '' @ int_repr (int (length files)) @ '' files in '' @ path)
              @ [(''data'', PJ (JDict [(''files'', JList (map JStr files)),
                                      (''count'', JInt (int (length files)))]))]))
   \<and> (os_path_exists env w (JStr path) = Inr False \<longrightarrow>
        cmd_dir env w (JStr path) =
          error_result (''Path does not exist: '' @ path)
            @ [(''data'', PJ (JDict [(''files'', JList [])]))])"
proof (intro conjI impI)
  assume ex: "os_path_exists env w (JStr path) = Inr True"
  obtain d b where sp: "os_path_split (posix_join path ''*.*'') = (d, b)"
    by (cases "os_path_split (posix_join path ''*.*'')")
  have b: "b = ''*.*''" using basename_join_pattern [of path] sp by simp
  show "let pattern = posix_join path ''*.*'';
           d = fst (os_path_split pattern);
           dotted = (\<lambda>dir. filter (\<lambda>n. CHR ''.'' \<in> set n \<and> \<not> ishidden n) (os_listdir env w dir));
           files = (if d = [] then dotted []
                    else concat (map (\<lambda>dir. map (posix_join dir) (dotted dir))
                                   (if d \<noteq> pattern \<and> has_magic d then glob_dirs env w d else [d])))
       in cmd_dir env w (JStr path) =
            success_result (''Found '' @ int_repr (int (length files)) @ '' files in '' @ path)
              @ [(''data'', PJ (JDict [(''files'', JList (map JStr files)),
                                      (''count'', JInt (int (length files)))]))]"
    using ex sp b
    by (simp add: cmd_dir_def os_path_join_def glob_glob_def glob1_star_dot_star py_str_def Let_def)
next
  assume "os_path_exists env w (JStr path) = Inr False"
  then show "cmd_dir env w (JStr path) =
          error_result (''Path does not exist: '' @ path)
            @ [(''data'', PJ (JDict [(''files'', JList [])]))]"
    by (simp add: cmd_dir_def py_str_def)
qed

theorem cmd_dir_listing_witness:
  "os_path_exists demo_os () (JStr ''docs'') = Inr True
   \<and> cmd_dir demo_os () (JStr ''docs'') =
       success_result ''Found 2 files in docs''
         @ [(''data'', PJ (JDict [(''files'', JList [JStr ''docs/a.txt'', JStr ''docs/b.py'']),
                                 (''count'', JInt 2)]))]
   \<and> os_path_exists demo_os () (JStr ''nowhere'') = Inr False
   \<and> cmd_dir demo_os () (JStr ''nowhere'') =
       error_result ''Path does not exist: nowhere'' @ [(''data'', PJ (JDict [(''files'', JList [])]))]"
proof -
  have h1: "os_path_exists demo_os () (JStr ''docs'') = Inr True" by code_simp
  have h2: "os_path_exists demo_os () (JStr ''nowhere'') = Inr False" by code_simp
  note listing = cmd_dir_listing [of demo_os "()" "''docs''", THEN conjunct1, THEN mp, OF h1,
      unfolded Let_def]
  note missing = cmd_dir_listing [of demo_os "()" "''nowhere''", THEN conjunct2, THEN mp, OF h2]
  have "cmd_dir demo_os () (JStr ''docs'') =
       success_result ''Found 2 files in docs''
         @ [(''data'', PJ (JDict [(''files'', JList [JStr ''docs/a.txt'', JStr ''docs/b.py'']),
                                 (''count'', JInt 2)]))]"
    unfolding listing by code_simp
  moreover have "cmd_dir demo_os () (JStr ''nowhere'') =
       error_result ''Path does not exist: nowhere'' @ [(''data'', PJ (JDict [(''files'', JList [])]))]"
    unfolding missing by code_simp
  ultimately show ?thesis using h1 h2 by blast
qed

end
